theory Spec2Isabelle
  imports Complex_Main "HOL-Library.Word"
begin

section \<open>Range codec: port ranges of \<^verbatim>\<open>master_state.go\<close>\<close>

text \<open>
  \<^verbatim>\<open>type ranges [][2]uint64\<close>: a Go byte slice is a \<^typ>\<open>string\<close> (a list of 8-bit
  characters), a \<^verbatim>\<open>uint64\<close> is a 64-bit word (its arithmetic wraps), a \<^verbatim>\<open>[2]uint64\<close>
  is a pair.
\<close>

type_synonym uint64 = "64 word"
type_synonym ranges = "(uint64 \<times> uint64) list"

text \<open>
  The errors \<^verbatim>\<open>ranges.UnmarshalJSON\<close> can return: its own \<^verbatim>\<open>fmt.Errorf("bad range: %s", r)\<close>
  and the two errors of \<^verbatim>\<open>strconv.ParseUint\<close> (invalid syntax, value out of range), each
  carrying the offending text.
\<close>

datatype error = BadRange string | ErrSyntax string | ErrRange string

subsection \<open>The library functions the codec calls\<close>

text \<open>
  \<^verbatim>\<open>bytes.Trim(s, cutset)\<close> with an ASCII cutset: drops the leading and the trailing bytes
  that occur in the cutset.
\<close>

definition Trim :: "string \<Rightarrow> string \<Rightarrow> string" where
  "Trim s cutset =
     rev (dropWhile (\<lambda>c. c \<in> set cutset) (rev (dropWhile (\<lambda>c. c \<in> set cutset) s)))"

text \<open>
  \<^verbatim>\<open>bytes.Split(s, sep)\<close> for a one-byte separator: the pieces between the separators, one
  more than there are separators (a single empty piece for the empty input).
\<close>

function Split :: "string \<Rightarrow> char \<Rightarrow> string list" where
  "Split s sep =
     (case dropWhile (\<lambda>c. c \<noteq> sep) s of
        [] \<Rightarrow> [s]
      | _ # rest \<Rightarrow> takeWhile (\<lambda>c. c \<noteq> sep) s # Split rest sep)"
  by pat_completeness auto
termination
proof (relation "measure (\<lambda>(s, sep). length s)")
  show "wf (measure (\<lambda>(s, sep). length s))" by simp
next
  fix s :: string and sep x21 x22
  assume "dropWhile (\<lambda>c. c \<noteq> sep) s = x21 # x22"
  then have "length (dropWhile (\<lambda>c. c \<noteq> sep) s) = Suc (length x22)" by simp
  moreover have "length (dropWhile (\<lambda>c. c \<noteq> sep) s) \<le> length s"
    by (rule length_dropWhile_le)
  ultimately show "((x22, sep), (s, sep)) \<in> measure (\<lambda>(s, sep). length s)" by simp
qed

text \<open>
  \<^verbatim>\<open>bytes.SplitN(s, sep, 2)\<close> for a one-byte separator: the part before the first separator
  and the whole rest, or the input alone when it holds no separator.
\<close>

definition SplitN2 :: "string \<Rightarrow> char \<Rightarrow> string list" where
  "SplitN2 s sep =
     (case dropWhile (\<lambda>c. c \<noteq> sep) s of
        [] \<Rightarrow> [s]
      | _ # rest \<Rightarrow> [takeWhile (\<lambda>c. c \<noteq> sep) s, rest])"

text \<open>
  \<^verbatim>\<open>bytes.TrimSpace\<close> drops leading and trailing white space as \<^verbatim>\<open>unicode.IsSpace\<close> defines it,
  reading the bytes as UTF-8: the six ASCII space bytes, U+0085, U+00A0, U+1680,
  U+2000..U+200A, U+2028, U+2029, U+202F, U+205F and U+3000. A rune is decoded as one of
  these exactly when the bytes at hand are its UTF-8 encoding, so trimming removes these
  byte sequences from the front, then from the back.
\<close>

definition space_seqs :: "string list" where
  "space_seqs =
     [[CHR 0x09], [CHR 0x0A], [CHR 0x0B], [CHR 0x0C], [CHR 0x0D], [CHR 0x20],
      [CHR 0xC2, CHR 0x85], [CHR 0xC2, CHR 0xA0],
      [CHR 0xE1, CHR 0x9A, CHR 0x80],
      [CHR 0xE2, CHR 0x80, CHR 0x80], [CHR 0xE2, CHR 0x80, CHR 0x81],
      [CHR 0xE2, CHR 0x80, CHR 0x82], [CHR 0xE2, CHR 0x80, CHR 0x83],
      [CHR 0xE2, CHR 0x80, CHR 0x84], [CHR 0xE2, CHR 0x80, CHR 0x85],
      [CHR 0xE2, CHR 0x80, CHR 0x86], [CHR 0xE2, CHR 0x80, CHR 0x87],
      [CHR 0xE2, CHR 0x80, CHR 0x88], [CHR 0xE2, CHR 0x80, CHR 0x89],
      [CHR 0xE2, CHR 0x80, CHR 0x8A],
      [CHR 0xE2, CHR 0x80, CHR 0xA8], [CHR 0xE2, CHR 0x80, CHR 0xA9],
      [CHR 0xE2, CHR 0x80, CHR 0xAF], [CHR 0xE2, CHR 0x81, CHR 0x9F],
      [CHR 0xE3, CHR 0x80, CHR 0x80]]"

definition spaceLen :: "string list \<Rightarrow> string \<Rightarrow> nat" where
  "spaceLen seqs s =
     (case find (\<lambda>p. p \<noteq> [] \<and> take (length p) s = p) seqs of
        None \<Rightarrow> 0
      | Some p \<Rightarrow> length p)"

function trimLeft :: "string list \<Rightarrow> string \<Rightarrow> string" where
  "trimLeft seqs s =
     (if spaceLen seqs s = 0 then s else trimLeft seqs (drop (spaceLen seqs s) s))"
  by pat_completeness auto

lemma spaceLen_Nil: "spaceLen seqs [] = 0"
  by (auto simp: spaceLen_def split: option.splits dest: find_Some_iff [THEN iffD1])

termination trimLeft
proof (relation "measure (\<lambda>(seqs, s). length s)")
  show "wf (measure (\<lambda>(seqs, s). length s))" by simp
next
  fix seqs :: "string list" and s :: string
  assume pos: "spaceLen seqs s \<noteq> 0"
  then have "s \<noteq> []" using spaceLen_Nil by auto
  with pos show "((seqs, drop (spaceLen seqs s) s), (seqs, s)) \<in> measure (\<lambda>(seqs, s). length s)"
    by simp
qed

definition TrimSpace :: "string \<Rightarrow> string" where
  "TrimSpace s = rev (trimLeft (map rev space_seqs) (rev (trimLeft space_seqs s)))"

text \<open>
  \<^verbatim>\<open>strconv.ParseUint(s, 10, 64)\<close>: the empty string is a syntax error; the digits are
  accumulated in a \<^verbatim>\<open>uint64\<close>; a byte that is not a decimal digit is a syntax error (a letter
  gets a digit value of at least 10, which is not below the base); a value that does not
  fit 64 bits is a range error, found at the digit that overflows.
\<close>

definition cutoff :: uint64 where
  "cutoff = 1844674407370955162"

definition maxVal :: uint64 where
  "maxVal = 18446744073709551615"

fun ParseUint_loop :: "string \<Rightarrow> uint64 \<Rightarrow> string \<Rightarrow> error + uint64" where
  "ParseUint_loop s0 n [] = Inr n"
| "ParseUint_loop s0 n (c # cs) =
     (if \<not> (48 \<le> (of_char c :: nat) \<and> (of_char c :: nat) \<le> 57) then Inl (ErrSyntax s0)
      else if n \<ge> cutoff then Inl (ErrRange s0)
      else
        let d = (of_nat (of_char c - 48) :: uint64);
            n' = n * 10;
            n1 = n' + d
        in if n1 < n' \<or> n1 > maxVal then Inl (ErrRange s0)
           else ParseUint_loop s0 n1 cs)"

definition ParseUint :: "string \<Rightarrow> error + uint64" where
  "ParseUint s = (if s = [] then Inl (ErrSyntax s) else ParseUint_loop s 0 s)"

subsection \<open>\<^verbatim>\<open>ranges.UnmarshalJSON\<close> and \<^verbatim>\<open>ranges.size\<close>\<close>

text \<open>
  The body of the loop over the tokens, up to the \<^verbatim>\<open>append\<close>: the pair a token denotes, or
  the error the loop returns with.
\<close>

definition parseRange :: "string \<Rightarrow> error + (uint64 \<times> uint64)" where
  "parseRange r =
     (let ps = SplitN2 r CHR ''-'' in
      if length ps \<noteq> 2 then Inl (BadRange r)
      else
        case ParseUint (TrimSpace (ps ! 0)) of
          Inl err \<Rightarrow> Inl err
        | Inr lo \<Rightarrow>
            (case ParseUint (TrimSpace (ps ! 1)) of
               Inl err \<Rightarrow> Inl err
             | Inr hi \<Rightarrow> Inr (lo, hi)))"

text \<open>
  The loop appends to the receiver as it goes: the state threaded through is the receiver
  \<^verbatim>\<open>*rs\<close>, and the result is the returned error (\<open>None\<close> for \<^verbatim>\<open>nil\<close>) with the receiver as
  the call leaves it.
\<close>

fun UnmarshalJSON_loop :: "string list \<Rightarrow> ranges \<Rightarrow> error option \<times> ranges" where
  "UnmarshalJSON_loop [] rs = (None, rs)"
| "UnmarshalJSON_loop (r # rest) rs =
     (case parseRange r of
        Inl err \<Rightarrow> (Some err, rs)
      | Inr rng \<Rightarrow> UnmarshalJSON_loop rest (rs @ [rng]))"

definition UnmarshalJSON :: "ranges \<Rightarrow> string \<Rightarrow> error option \<times> ranges" where
  "UnmarshalJSON rs data =
     (let data' = Trim data [CHR ''['', CHR '']'', CHR 0x22] in
      if length data' = 0 then (None, rs)
      else UnmarshalJSON_loop (Split data' CHR '','') rs)"

definition size_ranges :: "ranges \<Rightarrow> uint64" where
  "size_ranges rs = fold (\<lambda>r sz. sz + (1 + (snd r - fst r))) rs 0"

section \<open>Attribute normalizer\<close>

text \<open>
  Modelled from the spec: \<^verbatim>\<open>normaliseLabel\<close> and \<^verbatim>\<open>normaliseLabelList\<close> are called in
  \<^verbatim>\<open>master_state.go\<close> and defined in another file of the package. The spec (4.2) gives
  the policy: replace any character outside \<^verbatim>\<open>[A-Za-z0-9_]\<close> with \<^verbatim>\<open>_\<close>, applied
  identically when building the allow-list and when matching incoming attribute keys.
\<close>

definition validLabelChar :: "char \<Rightarrow> bool" where
  "validLabelChar c \<longleftrightarrow>
     c \<in> set (''abcdefghijklmnopqrstuvwxyz'' @ ''ABCDEFGHIJKLMNOPQRSTUVWXYZ'' @ ''0123456789_'')"

definition normaliseLabel :: "string \<Rightarrow> string" where
  "normaliseLabel label = map (\<lambda>c. if validLabelChar c then c else CHR ''_'') label"

definition normaliseLabelList :: "string list \<Rightarrow> string list" where
  "normaliseLabelList labels = map normaliseLabel labels"

section \<open>Snapshot of the master state\<close>

text \<open>
  A \<^verbatim>\<open>float64\<close> is an IEEE 754 binary64 value: a finite number, an infinity or a NaN. A
  finite value is given by the real number it denotes (either zero by 0). The reals that a
  \<^verbatim>\<open>float64\<close> denotes are those of \<open>is_float64\<close>: an integer below \<open>2^53\<close> in magnitude
  times a power of two from \<open>2^-1074\<close> to \<open>2^971\<close>; the largest is \<open>MaxFloat64\<close>.
\<close>

datatype float64 = Finite real | PosInf | NegInf | NaN

definition MaxFloat64 :: real where
  "MaxFloat64 = (2 ^ 53 - 1) * 2 ^ 971"

definition is_float64 :: "real \<Rightarrow> bool" where
  "is_float64 r \<longleftrightarrow>
     (\<exists>(m :: int) (e :: nat). \<bar>m\<bar> < 2 ^ 53 \<and> e \<le> 2045 \<and> r = of_int m * 2 ^ e / 2 ^ 1074)"

text \<open>
  \<^verbatim>\<open>x * 1024\<close> on a \<^verbatim>\<open>float64\<close>, the one arithmetic operation of the file: the exact
  product rounded to the nearest \<^verbatim>\<open>float64\<close>. The exact product of a \<^verbatim>\<open>float64\<close> with
  1024 is itself a \<^verbatim>\<open>float64\<close> when it is at most \<open>MaxFloat64\<close> in magnitude, and is at
  least \<open>2^1024\<close> in magnitude otherwise (\<open>is_float64_mul_1024\<close> and
  \<open>is_float64_overflow\<close> below): the operation returns the exact product in the first
  case and overflows to the infinity of its sign in the second.
\<close>

fun mul_1024 :: "float64 \<Rightarrow> float64" where
  "mul_1024 (Finite r) =
     (if r * 1024 > MaxFloat64 then PosInf
      else if r * 1024 < - MaxFloat64 then NegInf
      else Finite (r * 1024))"
| "mul_1024 PosInf = PosInf"
| "mul_1024 NegInf = NegInf"
| "mul_1024 NaN = NaN"

text \<open>
  \<^verbatim>\<open>float64(size)\<close> on a \<^verbatim>\<open>uint64\<close>: the nearest \<^verbatim>\<open>float64\<close>, a tie going to the even
  significand. A number of at most 53 bits is kept; a longer one keeps its 53 leading
  bits, rounded on the bits that are dropped. \<open>bits n\<close> is the number of binary digits
  of \<open>n\<close>.
\<close>

fun bits :: "nat \<Rightarrow> nat" where
  "bits n = (if n = 0 then 0 else Suc (bits (n div 2)))"

declare bits.simps [simp del]

definition float64_of_uint64 :: "uint64 \<Rightarrow> float64" where
  "float64_of_uint64 w =
     (let n = unat w;
          e = bits n - 53;
          q = n div 2 ^ e;
          r = n mod 2 ^ e;
          q' = (if 2 * r > 2 ^ e \<or> (2 * r = 2 ^ e \<and> odd q) then q + 1 else q)
      in Finite (real (q' * 2 ^ e)))"

text \<open>
  Modelled from the spec: the struct \<^verbatim>\<open>resources\<close> is declared in another file of the
  package. The spec (3) gives each pool of a node a cpu share, memory and disk in KiB and
  a port pool that is a range-list; the field names are those \<^verbatim>\<open>master_state.go\<close> reads.
\<close>

record resources =
  CPUs :: float64
  Disk :: float64
  Mem :: float64
  Ports :: ranges

text \<open>
  \<^verbatim>\<open>Attributes\<close> is a Go map from attribute name to raw JSON bytes; the closure that reads it
  ranges over it, in an order the language does not fix. It is modelled as the list of its
  entries in the order of that traversal, so a statement for every list covers every order.
\<close>

record slave =
  PID :: string
  Hostname :: string
  Used :: resources
  Unreserved :: resources
  Total :: resources
  Attributes :: "(string \<times> string) list"

record framework_resources =
  CPUs :: float64
  Disk :: float64
  Mem :: float64

text \<open>The struct \<^verbatim>\<open>task\<close> is declared in another file; no code of this file reads a task.\<close>

typedecl task

record framework =
  Active :: bool
  Tasks :: "task list"
  Completed :: "task list"
  Name :: string
  Used :: framework_resources
  Offered :: framework_resources

record state =
  Slaves :: "slave list"
  Frameworks :: "framework list"

section \<open>Metric vectors\<close>

text \<open>
  A metric vector of the Prometheus client holds one child per tuple of label values: its
  sample set is a map from label values to the child's value. \<^verbatim>\<open>GaugeVec\<close> is the client
  library's; the \<^verbatim>\<open>settableCounterVec\<close> built by \<^verbatim>\<open>counter(subsystem, name, help, labels...)\<close>
  is declared in another file of the package.
\<close>

record GaugeOpts =
  Help :: string
  Namespace :: string
  Subsystem :: string
  Name :: string

type_synonym samples = "string list \<rightharpoonup> float64"

datatype collector =
    is_GaugeVec: GaugeVec GaugeOpts "string list" samples
  | SettableCounterVec string string string "string list" samples

fun children :: "collector \<Rightarrow> samples" where
  "children (GaugeVec opts labelNames ch) = ch"
| "children (SettableCounterVec subsystem name help labelNames ch) = ch"

text \<open>
  The panics of the closures: a failed type assertion \<^verbatim>\<open>c.(*prometheus.GaugeVec)\<close> or
  \<^verbatim>\<open>c.(*settableCounterVec)\<close>, and \<^verbatim>\<open>WithLabelValues\<close> called with a number of values other
  than the number of label names of the vector. (\<^verbatim>\<open>WithLabelValues\<close> also rejects a label
  value that is not valid UTF-8; the strings of a snapshot come out of the JSON decoder,
  which yields valid UTF-8 only.)
\<close>

datatype panic = TypeAssertion | LabelCardinality

text \<open>\<^verbatim>\<open>c.(*prometheus.GaugeVec).Reset()\<close>: deletes every child.\<close>

fun Reset :: "collector \<Rightarrow> panic + collector" where
  "Reset (GaugeVec opts labelNames ch) = Inr (GaugeVec opts labelNames Map.empty)"
| "Reset (SettableCounterVec subsystem name help labelNames ch) = Inl TypeAssertion"

text \<open>\<^verbatim>\<open>c.(*prometheus.GaugeVec).WithLabelValues(lvs...).Set(v)\<close>: the child for \<open>lvs\<close>,
  created if there is none, is set to \<open>v\<close>.\<close>

fun WithLabelValues_Set :: "collector \<Rightarrow> string list \<Rightarrow> float64 \<Rightarrow> panic + collector" where
  "WithLabelValues_Set (GaugeVec opts labelNames ch) lvs v =
     (if length lvs \<noteq> length labelNames then Inl LabelCardinality
      else Inr (GaugeVec opts labelNames (ch(lvs \<mapsto> v))))"
| "WithLabelValues_Set (SettableCounterVec subsystem name help labelNames ch) lvs v =
     Inl TypeAssertion"

text \<open>
  Modelled from the spec: \<^verbatim>\<open>settableCounterVec.Set(value, labelValues...)\<close> is defined in
  another file of the package. The spec has the samples of a metric keyed by label-value
  tuples (3) and gives this one an additive "set" (4.3, 4.4): the row for the label values
  is set to the value and no other row is cleared.
\<close>

fun counter_Set :: "collector \<Rightarrow> float64 \<Rightarrow> string list \<Rightarrow> panic + collector" where
  "counter_Set (SettableCounterVec subsystem name help labelNames ch) v lvs =
     Inr (SettableCounterVec subsystem name help labelNames (ch(lvs \<mapsto> v)))"
| "counter_Set (GaugeVec opts labelNames ch) v lvs = Inl TypeAssertion"

section \<open>The registry: \<^verbatim>\<open>newMasterStateCollector\<close>\<close>

text \<open>
  Every closure of the map literal has the same shape,
  \<^verbatim>\<open>c.Reset(); for _, x := range xs { c.WithLabelValues(lvs x...).Set(val x) }\<close>,
  over the slaves with the label values \<^verbatim>\<open>(s.PID, s.Hostname)\<close> or over the frameworks
  with \<^verbatim>\<open>(f.Name)\<close>; they differ in the value they set.
\<close>

fun range_Set ::
  "('a \<Rightarrow> string list) \<Rightarrow> ('a \<Rightarrow> float64) \<Rightarrow> 'a list \<Rightarrow> collector \<Rightarrow> panic + collector" where
  "range_Set lvs val [] c = Inr c"
| "range_Set lvs val (x # xs) c =
     (case WithLabelValues_Set c (lvs x) (val x) of
        Inl p \<Rightarrow> Inl p
      | Inr c' \<Rightarrow> range_Set lvs val xs c')"

definition slaveGauge :: "(slave \<Rightarrow> float64) \<Rightarrow> state \<Rightarrow> collector \<Rightarrow> panic + collector" where
  "slaveGauge val st c =
     (case Reset c of
        Inl p \<Rightarrow> Inl p
      | Inr c' \<Rightarrow> range_Set (\<lambda>s. [PID s, Hostname s]) val (Slaves st) c')"

definition frameworkGauge ::
  "(framework \<Rightarrow> float64) \<Rightarrow> state \<Rightarrow> collector \<Rightarrow> panic + collector" where
  "frameworkGauge val st c =
     (case Reset c of
        Inl p \<Rightarrow> Inl p
      | Inr c' \<Rightarrow> range_Set (\<lambda>f. [framework.Name f]) val (Frameworks st) c')"

type_synonym metrics = "(collector \<times> (state \<Rightarrow> collector \<Rightarrow> panic + collector)) list"

text \<open>
  The map literal \<^verbatim>\<open>metrics\<close>, in the order of the source. A Go map from collector to
  closure is traversed in no fixed order; each closure touches the collector it is paired
  with and no other, so the list stands for the map.
\<close>

definition labels :: "string list" where
  "labels = [''slave'', ''hostname'']"

definition framework_labels :: "string list" where
  "framework_labels = [''framework'']"

definition fixed_metrics :: metrics where
  "fixed_metrics =
    [(GaugeVec \<lparr>Help = ''Total slave CPUs (fractional)'', Namespace = ''mesos'',
         Subsystem = ''slave'', Name = ''cpus''\<rparr> labels Map.empty,
      slaveGauge (\<lambda>s. resources.CPUs (Total s))),
     (GaugeVec \<lparr>Help = ''Used slave CPUs (fractional)'', Namespace = ''mesos'',
         Subsystem = ''slave'', Name = ''cpus_used''\<rparr> labels Map.empty,
      slaveGauge (\<lambda>s. resources.CPUs (slave.Used s))),
     (GaugeVec \<lparr>Help = ''Unreserved slave CPUs (fractional)'', Namespace = ''mesos'',
         Subsystem = ''slave'', Name = ''cpus_unreserved''\<rparr> labels Map.empty,
      slaveGauge (\<lambda>s. resources.CPUs (Unreserved s))),
     (GaugeVec \<lparr>Help = ''Total slave memory in bytes'', Namespace = ''mesos'',
         Subsystem = ''slave'', Name = ''mem_bytes''\<rparr> labels Map.empty,
      slaveGauge (\<lambda>s. mul_1024 (resources.Mem (Total s)))),
     (GaugeVec \<lparr>Help = ''Used slave memory in bytes'', Namespace = ''mesos'',
         Subsystem = ''slave'', Name = ''mem_used_bytes''\<rparr> labels Map.empty,
      slaveGauge (\<lambda>s. mul_1024 (resources.Mem (slave.Used s)))),
     (GaugeVec \<lparr>Help = ''Unreserved slave memory in bytes'', Namespace = ''mesos'',
         Subsystem = ''slave'', Name = ''mem_unreserved_bytes''\<rparr> labels Map.empty,
      slaveGauge (\<lambda>s. mul_1024 (resources.Mem (Unreserved s)))),
     (GaugeVec \<lparr>Help = ''Total slave disk space in bytes'', Namespace = ''mesos'',
         Subsystem = ''slave'', Name = ''disk_bytes''\<rparr> labels Map.empty,
      slaveGauge (\<lambda>s. mul_1024 (resources.Disk (Total s)))),
     (GaugeVec \<lparr>Help = ''Used slave disk space in bytes'', Namespace = ''mesos'',
         Subsystem = ''slave'', Name = ''disk_used_bytes''\<rparr> labels Map.empty,
      slaveGauge (\<lambda>s. mul_1024 (resources.Disk (slave.Used s)))),
     (GaugeVec \<lparr>Help = ''Unreserved slave disk in bytes'', Namespace = ''mesos'',
         Subsystem = ''slave'', Name = ''disk_unreserved_bytes''\<rparr> labels Map.empty,
      slaveGauge (\<lambda>s. mul_1024 (resources.Disk (Unreserved s)))),
     (GaugeVec \<lparr>Help = ''Total slave ports'', Namespace = ''mesos'',
         Subsystem = ''slave'', Name = ''ports''\<rparr> labels Map.empty,
      slaveGauge (\<lambda>s. float64_of_uint64 (size_ranges (Ports (Total s))))),
     (GaugeVec \<lparr>Help = ''Used slave ports'', Namespace = ''mesos'',
         Subsystem = ''slave'', Name = ''ports_used''\<rparr> labels Map.empty,
      slaveGauge (\<lambda>s. float64_of_uint64 (size_ranges (Ports (slave.Used s))))),
     (GaugeVec \<lparr>Help = ''Unreserved slave ports'', Namespace = ''mesos'',
         Subsystem = ''slave'', Name = ''ports_unreserved''\<rparr> labels Map.empty,
      slaveGauge (\<lambda>s. float64_of_uint64 (size_ranges (Ports (Unreserved s))))),
     (GaugeVec \<lparr>Help = ''Active framework'', Namespace = ''mesos'',
         Subsystem = ''framework'', Name = ''active''\<rparr> framework_labels Map.empty,
      frameworkGauge (\<lambda>f. if Active f then Finite 1 else Finite 0)),
     (GaugeVec \<lparr>Help = ''Framework cpu used'', Namespace = ''mesos'',
         Subsystem = ''framework'', Name = ''cpu_used''\<rparr> framework_labels Map.empty,
      frameworkGauge (\<lambda>f. framework_resources.CPUs (framework.Used f))),
     (GaugeVec \<lparr>Help = ''Framework disk used'', Namespace = ''mesos'',
         Subsystem = ''framework'', Name = ''disk_used''\<rparr> framework_labels Map.empty,
      frameworkGauge (\<lambda>f. framework_resources.Disk (framework.Used f))),
     (GaugeVec \<lparr>Help = ''Framework memory used'', Namespace = ''mesos'',
         Subsystem = ''framework'', Name = ''mem_used''\<rparr> framework_labels Map.empty,
      frameworkGauge (\<lambda>f. framework_resources.Mem (framework.Used f))),
     (GaugeVec \<lparr>Help = ''Framework cpu offered'', Namespace = ''mesos'',
         Subsystem = ''framework'', Name = ''cpu_offered''\<rparr> framework_labels Map.empty,
      frameworkGauge (\<lambda>f. framework_resources.CPUs (Offered f))),
     (GaugeVec \<lparr>Help = ''Framework mem offered'', Namespace = ''mesos'',
         Subsystem = ''framework'', Name = ''mem_offered''\<rparr> framework_labels Map.empty,
      frameworkGauge (\<lambda>f. framework_resources.Mem (Offered f))),
     (GaugeVec \<lparr>Help = ''Framework disk offered'', Namespace = ''mesos'',
         Subsystem = ''framework'', Name = ''disk_offered''\<rparr> framework_labels Map.empty,
      frameworkGauge (\<lambda>f. framework_resources.Disk (Offered f)))]"

text \<open>
  Modelled from the spec: \<^verbatim>\<open>stringInSlice\<close> is defined in another file of the package. The
  spec (4.2, 4.3) has an incoming attribute key, once normalized, matched against the
  normalized allow-list: the test is membership.
\<close>

definition stringInSlice :: "string \<Rightarrow> string list \<Rightarrow> bool" where
  "stringInSlice a list \<longleftrightarrow> a \<in> set list"

text \<open>
  The closure of the attribute metric. \<^verbatim>\<open>attributeString\<close> and \<^verbatim>\<open>getLabelValuesFromMap\<close> are
  functions of the package defined in another file: they are parameters of the closure.
  \<^verbatim>\<open>attributeString\<close> gives \<open>Some\<close> string where the Go returns a \<^verbatim>\<open>nil\<close> error.
  \<open>slaveAttributesExport\<close> is the label map the closure builds for one slave.
\<close>

definition slaveAttributesExport ::
  "(string \<Rightarrow> string option) \<Rightarrow> string list \<Rightarrow> slave \<Rightarrow> (string \<rightharpoonup> string)" where
  "slaveAttributesExport attributeString normalisedAttributeLabels s =
     (let m0 = [''slave'' \<mapsto> PID s];
          m1 = fold (\<lambda>label m. m(label \<mapsto> '''')) normalisedAttributeLabels m0
      in fold (\<lambda>(key, value) m.
                 let normalisedLabel = normaliseLabel key in
                 if stringInSlice normalisedLabel normalisedAttributeLabels then
                   (case attributeString value of
                      Some attribute \<Rightarrow> m(normalisedLabel \<mapsto> attribute)
                    | None \<Rightarrow> m)
                 else m)
              (Attributes s) m1)"

fun attributes_loop ::
  "(string \<Rightarrow> string option) \<Rightarrow> ((string \<rightharpoonup> string) \<Rightarrow> string list \<Rightarrow> string list) \<Rightarrow>
   string list \<Rightarrow> string list \<Rightarrow> slave list \<Rightarrow> collector \<Rightarrow> panic + collector" where
  "attributes_loop attributeString getLabelValuesFromMap normalisedAttributeLabels
     slaveAttributesLabelsExport [] c = Inr c"
| "attributes_loop attributeString getLabelValuesFromMap normalisedAttributeLabels
     slaveAttributesLabelsExport (s # ss) c =
     (case counter_Set c (Finite 1)
             (getLabelValuesFromMap
                (slaveAttributesExport attributeString normalisedAttributeLabels s)
                slaveAttributesLabelsExport) of
        Inl p \<Rightarrow> Inl p
      | Inr c' \<Rightarrow>
          attributes_loop attributeString getLabelValuesFromMap normalisedAttributeLabels
            slaveAttributesLabelsExport ss c')"

definition attributes_closure ::
  "(string \<Rightarrow> string option) \<Rightarrow> ((string \<rightharpoonup> string) \<Rightarrow> string list \<Rightarrow> string list) \<Rightarrow>
   string list \<Rightarrow> string list \<Rightarrow> state \<Rightarrow> collector \<Rightarrow> panic + collector" where
  "attributes_closure attributeString getLabelValuesFromMap normalisedAttributeLabels
     slaveAttributesLabelsExport st c =
     attributes_loop attributeString getLabelValuesFromMap normalisedAttributeLabels
       slaveAttributesLabelsExport (Slaves st) c"

record 'h masterCollector =
  httpClient :: 'h
  metrics :: metrics

definition newMasterStateCollector ::
  "(string \<Rightarrow> string option) \<Rightarrow> ((string \<rightharpoonup> string) \<Rightarrow> string list \<Rightarrow> string list) \<Rightarrow>
   'h \<Rightarrow> string list \<Rightarrow> 'h masterCollector" where
  "newMasterStateCollector attributeString getLabelValuesFromMap client slaveAttributeLabels =
     \<lparr>httpClient = client,
      metrics =
        (if length slaveAttributeLabels > 0 then
           let normalisedAttributeLabels = normaliseLabelList slaveAttributeLabels;
               slaveAttributesLabelsExport = labels @ normalisedAttributeLabels
           in fixed_metrics @
              [(SettableCounterVec ''slave'' ''attributes'' ''Attributes assigned to slaves''
                  slaveAttributesLabelsExport Map.empty,
                attributes_closure attributeString getLabelValuesFromMap
                  normalisedAttributeLabels slaveAttributesLabelsExport)]
         else fixed_metrics)\<rparr>"

text \<open>
  Modelled from the spec: \<^verbatim>\<open>getLabelValuesFromMap(labels, orderedLabelKeys)\<close> is defined in
  another file of the package. The spec (4.3) has the record of a node carry every label of
  the metric, a label the node gives no value being the empty string: the label values are
  those of the map at the label names, in their order, and the empty string (what a Go map
  of strings yields at a key it lacks) where the map has no entry. The registry above is
  stated for any function in its place; the records of the attribute metric are stated for
  this one.
\<close>

definition getLabelValuesFromMap :: "(string \<rightharpoonup> string) \<Rightarrow> string list \<Rightarrow> string list" where
  "getLabelValuesFromMap labelMap orderedLabelKeys =
     map (\<lambda>label. case labelMap label of None \<Rightarrow> [] | Some v \<Rightarrow> v) orderedLabelKeys"

section \<open>The collection cycle: \<^verbatim>\<open>masterCollector.Collect\<close>\<close>

text \<open>
  \<^verbatim>\<open>for c, set := range c.metrics { set(&s, c); c.Collect(ch) }\<close>: each closure updates its
  collector, which is then sent to the channel. The result is the registry with the
  updated collectors and what the channel received, a collector standing for its samples.
\<close>

fun Collect_loop :: "state \<Rightarrow> metrics \<Rightarrow> panic + (metrics \<times> collector list)" where
  "Collect_loop s [] = Inr ([], [])"
| "Collect_loop s ((c, set') # rest) =
     (case set' s c of
        Inl p \<Rightarrow> Inl p
      | Inr c' \<Rightarrow>
          (case Collect_loop s rest of
             Inl p \<Rightarrow> Inl p
           | Inr (rest', ch) \<Rightarrow> Inr ((c', set') # rest', c' # ch)))"

text \<open>
  \<^verbatim>\<open>fetchAndDecode\<close> is a method of the HTTP client, defined in another file: it is a
  parameter, the answer of the master at the time of the call. It is given the path and
  the zero-valued \<^verbatim>\<open>state\<close> it decodes into, and returns its error (\<open>None\<close> for success)
  with the state as it leaves it. \<^verbatim>\<open>Collect\<close> does not look at the error.
\<close>

definition Collect ::
  "('h \<Rightarrow> string \<Rightarrow> state \<Rightarrow> 'e option \<times> state) \<Rightarrow> 'h masterCollector \<Rightarrow>
   panic + ('h masterCollector \<times> collector list)" where
  "Collect fetchAndDecode c =
     (let s0 = \<lparr>Slaves = [], Frameworks = []\<rparr>;
          (err, s) = fetchAndDecode (httpClient c) ''/state'' s0
      in case Collect_loop s (metrics c) of
           Inl p \<Rightarrow> Inl p
         | Inr (ms, ch) \<Rightarrow> Inr (c\<lparr>metrics := ms\<rparr>, ch))"

text \<open>A sequence of scrapes: one collection cycle per answer of the master, in order.\<close>

fun scrapes ::
  "('h \<Rightarrow> string \<Rightarrow> state \<Rightarrow> 'e option \<times> state) list \<Rightarrow> 'h masterCollector \<Rightarrow>
   panic + 'h masterCollector" where
  "scrapes [] c = Inr c"
| "scrapes (f # fs) c =
     (case Collect f c of
        Inl p \<Rightarrow> Inl p
      | Inr (c', ch) \<Rightarrow> scrapes fs c')"

text \<open>
  The sample set a gauge closure leaves: for each tuple of label values, the value of the
  last slave (or framework) of the snapshot that carries it.
\<close>

abbreviation slave_samples :: "(slave \<Rightarrow> float64) \<Rightarrow> state \<Rightarrow> samples" where
  "slave_samples val st \<equiv>
     (\<lambda>k. map_option val (find (\<lambda>s. [PID s, Hostname s] = k) (rev (Slaves st))))"

abbreviation framework_samples :: "(framework \<Rightarrow> float64) \<Rightarrow> state \<Rightarrow> samples" where
  "framework_samples val st \<equiv>
     (\<lambda>k. map_option val (find (\<lambda>f. [framework.Name f] = k) (rev (Frameworks st))))"

text \<open>The samples of the gauge with a given subsystem and name among emitted collectors.\<close>

fun gauge_samples :: "string \<Rightarrow> string \<Rightarrow> collector list \<Rightarrow> samples option" where
  "gauge_samples sub n [] = None"
| "gauge_samples sub n (GaugeVec opts labelNames ch # cs) =
     (if Subsystem opts = sub \<and> GaugeOpts.Name opts = n then Some ch
      else gauge_samples sub n cs)"
| "gauge_samples sub n (SettableCounterVec subsystem name help labelNames ch # cs) =
     gauge_samples sub n cs"

section \<open>What a bound denotes\<close>

text \<open>
  Following the spec's words ("a bound that parses as a non-negative integer"): a text is
  the decimal numeral of a \<^verbatim>\<open>uint64\<close> when it is a non-empty sequence of decimal digits
  whose value is below \<open>2^64\<close>. \<open>decimal_from a s\<close> is the value of the digits \<open>s\<close>
  read after a number \<open>a\<close>.
\<close>

definition is_digit :: "char \<Rightarrow> bool" where
  "is_digit c \<longleftrightarrow> 48 \<le> (of_char c :: nat) \<and> (of_char c :: nat) \<le> 57"

definition decimal_from :: "nat \<Rightarrow> string \<Rightarrow> nat" where
  "decimal_from a s = foldl (\<lambda>a c. a * 10 + (of_char c - 48)) a s"

definition decimal_value :: "string \<Rightarrow> nat" where
  "decimal_value s = decimal_from 0 s"

definition is_uint64 :: "string \<Rightarrow> bool" where
  "is_uint64 s \<longleftrightarrow> s \<noteq> [] \<and> (\<forall>c\<in>set s. is_digit c) \<and> decimal_value s < 2 ^ 64"

section \<open>What a record of the attribute metric carries\<close>

text \<open>
  Following the spec's words (4.2, 4.3: a record has every label "present (defaulted to
  empty string when the node lacks that attribute)", and an attribute whose value is not a
  string is skipped for the node): \<open>attribute_strings\<close> lists the strings of the
  attributes of a node whose key normalizes to a name, in the order the attributes are
  read, and \<open>attribute_value\<close> is the last of them, the empty string when there is none.
\<close>

definition attribute_strings :: "(string \<Rightarrow> string option) \<Rightarrow> slave \<Rightarrow> string \<Rightarrow> string list" where
  "attribute_strings attributeString s l =
     List.map_filter
       (\<lambda>(key, value). if normaliseLabel key = l then attributeString value else None)
       (Attributes s)"

definition attribute_value :: "(string \<Rightarrow> string option) \<Rightarrow> slave \<Rightarrow> string \<Rightarrow> string" where
  "attribute_value attributeString s l =
     (if attribute_strings attributeString s l = [] then []
      else last (attribute_strings attributeString s l))"

section \<open>Notions used in the proofs\<close>

text \<open>
  A registry in a later state: the same closures, paired with the same vectors holding
  other sample sets.
\<close>

fun with_children :: "collector \<Rightarrow> samples \<Rightarrow> collector" where
  "with_children (GaugeVec opts labelNames ch) ch' = GaugeVec opts labelNames ch'"
| "with_children (SettableCounterVec subsystem name help labelNames ch) ch' =
     SettableCounterVec subsystem name help labelNames ch'"

definition same_registry :: "metrics \<Rightarrow> metrics \<Rightarrow> bool" where
  "same_registry ms ms0 \<longleftrightarrow>
     list_all2 (\<lambda>e e0. snd e = snd e0 \<and> (\<exists>ch. fst e = with_children (fst e0) ch)) ms ms0"

definition total_entry :: "collector \<times> (state \<Rightarrow> collector \<Rightarrow> panic + collector) \<Rightarrow> bool" where
  "total_entry e0 \<longleftrightarrow>
     (\<forall>st ch. \<exists>ch'. snd e0 st (with_children (fst e0) ch) = Inr (with_children (fst e0) ch'))"

definition memoryless :: "collector \<times> (state \<Rightarrow> collector \<Rightarrow> panic + collector) \<Rightarrow> bool" where
  "memoryless e0 \<longleftrightarrow>
     (\<forall>st ch. snd e0 st (with_children (fst e0) ch) = snd e0 st (fst e0))"

definition keyed :: "state \<Rightarrow> collector \<Rightarrow> bool" where
  "keyed st c \<longleftrightarrow>
     (\<exists>opts m. c = GaugeVec opts [''slave'', ''hostname''] m \<and>
         dom m = (\<lambda>s. [PID s, Hostname s]) ` set (Slaves st)) \<or>
     (\<exists>opts m. c = GaugeVec opts [''framework''] m \<and>
         dom m = (\<lambda>f. [framework.Name f]) ` set (Frameworks st))"

definition emits_keyed :: "collector \<times> (state \<Rightarrow> collector \<Rightarrow> panic + collector) \<Rightarrow> bool" where
  "emits_keyed e \<longleftrightarrow> (\<forall>st c'. snd e st (fst e) = Inr c' \<longrightarrow> keyed st c')"

text \<open>
  For the examples: a master whose answer decodes to a given snapshot, a master that cannot
  be reached (the fetch fails and leaves the state as it found it), and an
  \<^verbatim>\<open>attributeString\<close> that accepts a double-quoted text.
\<close>

definition answers :: "state \<Rightarrow> unit \<Rightarrow> string \<Rightarrow> state \<Rightarrow> unit option \<times> state" where
  "answers st h path s = (None, st)"


definition quoted :: "string \<Rightarrow> string option" where
  "quoted raw =
     (case raw of
        [] \<Rightarrow> None
      | c # cs \<Rightarrow> if c = CHR 0x22 \<and> cs \<noteq> [] \<and> last cs = CHR 0x22 then Some (butlast cs) else None)"

text \<open>Snapshots for the examples: the end-to-end scenario of the spec (8), a node with
  2 KiB of memory, two frameworks of one name, one node with one framework, a node with
  \<open>2^1023\<close> KiB of memory, and two nodes of one pid.\<close>

definition scenario :: state where
  "scenario =
     \<lparr>Slaves =
        [\<lparr>PID = ''s1'', Hostname = ''h1'',
          slave.Used = \<lparr>resources.CPUs = Finite 0, Disk = Finite 0, Mem = Finite 0, Ports = []\<rparr>,
          Unreserved = \<lparr>resources.CPUs = Finite 0, Disk = Finite 0, Mem = Finite 0, Ports = []\<rparr>,
          Total = \<lparr>resources.CPUs = Finite 4, Disk = Finite 1024, Mem = Finite 1024,
                     Ports = snd (UnmarshalJSON [] ''31000-32000'')\<rparr>,
          Attributes = [(''rack'', [CHR 0x22, CHR ''r'', CHR ''1'', CHR 0x22])]\<rparr>],
      Frameworks = []\<rparr>"

definition two_kib :: state where
  "two_kib =
     \<lparr>Slaves =
        [\<lparr>PID = ''s2'', Hostname = ''h2'',
          slave.Used = \<lparr>resources.CPUs = Finite 0, Disk = Finite 0, Mem = Finite 0, Ports = []\<rparr>,
          Unreserved = \<lparr>resources.CPUs = Finite 0, Disk = Finite 0, Mem = Finite 0, Ports = []\<rparr>,
          Total = \<lparr>resources.CPUs = Finite 1, Disk = Finite 0, Mem = Finite 2, Ports = []\<rparr>,
          Attributes = []\<rparr>],
      Frameworks = []\<rparr>"

definition twin_frameworks :: state where
  "twin_frameworks =
     \<lparr>Slaves = [],
      Frameworks =
        [\<lparr>Active = True, Tasks = [], Completed = [], framework.Name = ''f'',
          framework.Used = \<lparr>framework_resources.CPUs = Finite 1, Disk = Finite 0, Mem = Finite 0\<rparr>,
          Offered = \<lparr>framework_resources.CPUs = Finite 0, Disk = Finite 0, Mem = Finite 0\<rparr>\<rparr>,
         \<lparr>Active = False, Tasks = [], Completed = [], framework.Name = ''f'',
          framework.Used = \<lparr>framework_resources.CPUs = Finite 2, Disk = Finite 0, Mem = Finite 0\<rparr>,
          Offered = \<lparr>framework_resources.CPUs = Finite 0, Disk = Finite 0, Mem = Finite 0\<rparr>\<rparr>]\<rparr>"

definition one_each :: state where
  "one_each =
     \<lparr>Slaves =
        [\<lparr>PID = ''s1'', Hostname = ''h1'',
          slave.Used = \<lparr>resources.CPUs = Finite 1, Disk = Finite 0, Mem = Finite 0, Ports = []\<rparr>,
          Unreserved = \<lparr>resources.CPUs = Finite 3, Disk = Finite 0, Mem = Finite 0, Ports = []\<rparr>,
          Total = \<lparr>resources.CPUs = Finite 4, Disk = Finite 0, Mem = Finite 0, Ports = []\<rparr>,
          Attributes = []\<rparr>],
      Frameworks =
        [\<lparr>Active = True, Tasks = [], Completed = [], framework.Name = ''f'',
          framework.Used = \<lparr>framework_resources.CPUs = Finite 1, Disk = Finite 0, Mem = Finite 0\<rparr>,
          Offered = \<lparr>framework_resources.CPUs = Finite 0, Disk = Finite 0, Mem = Finite 0\<rparr>\<rparr>]\<rparr>"

definition huge :: state where
  "huge =
     \<lparr>Slaves =
        [\<lparr>PID = ''s3'', Hostname = ''h3'',
          slave.Used = \<lparr>resources.CPUs = Finite 0, Disk = Finite 0, Mem = Finite 0, Ports = []\<rparr>,
          Unreserved = \<lparr>resources.CPUs = Finite 0, Disk = Finite 0, Mem = Finite 0, Ports = []\<rparr>,
          Total = \<lparr>resources.CPUs = Finite 1, Disk = Finite 0, Mem = Finite (2 ^ 1023),
                     Ports = []\<rparr>,
          Attributes = []\<rparr>],
      Frameworks = []\<rparr>"

definition twin_nodes :: state where
  "twin_nodes =
     \<lparr>Slaves =
        [\<lparr>PID = ''s1'', Hostname = ''h1'',
          slave.Used = \<lparr>resources.CPUs = Finite 0, Disk = Finite 0, Mem = Finite 0, Ports = []\<rparr>,
          Unreserved = \<lparr>resources.CPUs = Finite 0, Disk = Finite 0, Mem = Finite 0, Ports = []\<rparr>,
          Total = \<lparr>resources.CPUs = Finite 4, Disk = Finite 0, Mem = Finite 0, Ports = []\<rparr>,
          Attributes = [(''rack'', [CHR 0x22, CHR ''r'', CHR ''1'', CHR 0x22])]\<rparr>,
         \<lparr>PID = ''s1'', Hostname = ''h2'',
          slave.Used = \<lparr>resources.CPUs = Finite 0, Disk = Finite 0, Mem = Finite 0, Ports = []\<rparr>,
          Unreserved = \<lparr>resources.CPUs = Finite 0, Disk = Finite 0, Mem = Finite 0, Ports = []\<rparr>,
          Total = \<lparr>resources.CPUs = Finite 8, Disk = Finite 0, Mem = Finite 0, Ports = []\<rparr>,
          Attributes = [(''rack'', [CHR 0x22, CHR ''r'', CHR ''1'', CHR 0x22])]\<rparr>],
      Frameworks = []\<rparr>"

section \<open>Properties of the range codec\<close>

lemma dropWhile_sep_Nil: "dropWhile (\<lambda>c. c \<noteq> sep) r = [] \<longleftrightarrow> sep \<notin> set r"
  by (induction r) auto

lemma SplitN2_length: "length (SplitN2 r sep) = 2 \<longleftrightarrow> sep \<in> set r"
proof (cases "dropWhile (\<lambda>c. c \<noteq> sep) r")
  case Nil
  have "SplitN2 r sep = [r]" unfolding SplitN2_def Nil by simp
  moreover have "sep \<notin> set r" using Nil dropWhile_sep_Nil [of sep r] by blast
  ultimately show ?thesis by simp
next
  case (Cons a as)
  have "SplitN2 r sep = [takeWhile (\<lambda>c. c \<noteq> sep) r, as]" unfolding SplitN2_def Cons by simp
  moreover have "sep \<in> set r" using Cons dropWhile_sep_Nil [of sep r] by auto
  ultimately show ?thesis by simp
qed

lemma SplitN2_parts:
  assumes "sep \<notin> set lo"
  shows "SplitN2 (lo @ sep # hi) sep = [lo, hi]"
proof -
  have "dropWhile (\<lambda>c. c \<noteq> sep) (lo @ sep # hi) = sep # hi"
    using assms by (induction lo) auto
  moreover have "takeWhile (\<lambda>c. c \<noteq> sep) (lo @ sep # hi) = lo"
    using assms by (induction lo) auto
  ultimately show ?thesis by (simp add: SplitN2_def)
qed

lemma decimal_from_Nil: "decimal_from a [] = a"
  by (simp add: decimal_from_def)

lemma decimal_from_Cons: "decimal_from a (c # cs) = decimal_from (a * 10 + (of_char c - 48)) cs"
  by (simp add: decimal_from_def)

lemma decimal_from_ge: "a \<le> decimal_from a cs"
proof (induction cs arbitrary: a)
  case Nil
  show ?case by (simp add: decimal_from_Nil)
next
  case (Cons c cs)
  have "a \<le> a * 10 + (of_char c - 48)" by simp
  also have "\<dots> \<le> decimal_from (a * 10 + (of_char c - 48)) cs" by (rule Cons.IH)
  finally show ?case by (simp add: decimal_from_Cons)
qed

lemma step_no_overflow:
  fixes n :: uint64
  assumes d: "d \<le> 9" and fit: "unat n * 10 + d < 2 ^ 64"
  shows "\<not> n \<ge> cutoff" and "unat (n * 10 + of_nat d) = unat n * 10 + d"
    and "\<not> (n * 10 + of_nat d < n * 10)" and "\<not> (n * 10 + of_nat d > maxVal)"
proof -
  from fit have lt: "unat n < 1844674407370955162" by simp
  have uc: "unat cutoff = 1844674407370955162" by (simp add: cutoff_def)
  show "\<not> n \<ge> cutoff" using lt uc by (simp add: word_le_nat_alt)
  have "unat n * unat (10 :: uint64) < 2 ^ LENGTH(64)" using fit by simp
  then have m: "unat (n * 10) = unat n * 10"
    using unat_mult_lem [of n "10 :: uint64"] by simp
  have ud: "unat (of_nat d :: uint64) = d" using d by (simp add: unat_of_nat)
  have "unat (n * 10) + unat (of_nat d :: uint64) < 2 ^ LENGTH(64)" using fit m ud by simp
  then have a: "unat (n * 10 + of_nat d) = unat (n * 10) + unat (of_nat d :: uint64)"
    using unat_add_lem [of "n * 10" "of_nat d :: uint64"] by simp
  with m ud show s: "unat (n * 10 + of_nat d) = unat n * 10 + d" by simp
  show "\<not> (n * 10 + of_nat d < n * 10)" using s m by (simp add: word_less_nat_alt)
  have "unat maxVal = 18446744073709551615" by (simp add: maxVal_def)
  then show "\<not> (n * 10 + of_nat d > maxVal)" using s fit by (simp add: word_less_nat_alt)
qed

lemma step_overflow:
  fixes n :: uint64
  assumes d: "d \<le> 9" and c: "\<not> n \<ge> cutoff" and a: "\<not> (n * 10 + of_nat d < n * 10)"
  shows "unat (n * 10 + of_nat d) = unat n * 10 + d"
proof -
  have uc: "unat cutoff = 1844674407370955162" by (simp add: cutoff_def)
  from c uc have lt: "unat n < 1844674407370955162" by (simp add: word_le_nat_alt)
  then have "unat n * unat (10 :: uint64) < 2 ^ LENGTH(64)" by simp
  then have m: "unat (n * 10) = unat n * 10"
    using unat_mult_lem [of n "10 :: uint64"] by simp
  have ud: "unat (of_nat d :: uint64) = d" using d by (simp add: unat_of_nat)
  from a have "n * 10 \<le> n * 10 + of_nat d" by simp
  then have "unat (n * 10) + unat (of_nat d :: uint64) < 2 ^ LENGTH(64)"
    by (simp add: no_olen_add_nat)
  then have "unat (n * 10 + of_nat d) = unat (n * 10) + unat (of_nat d :: uint64)"
    using unat_add_lem [of "n * 10" "of_nat d :: uint64"] by simp
  with m ud show ?thesis by simp
qed

lemma digit_le_9: "is_digit c \<Longrightarrow> (of_char c :: nat) - 48 \<le> 9"
  unfolding is_digit_def by arith

lemma ParseUint_loop_accepts:
  assumes "\<forall>c\<in>set cs. is_digit c" and "decimal_from (unat n) cs < 2 ^ 64"
  shows "ParseUint_loop s0 n cs = Inr (of_nat (decimal_from (unat n) cs))"
  using assms
proof (induction cs arbitrary: n)
  case Nil
  show ?case by (simp add: decimal_from_Nil)
next
  case (Cons c cs)
  let ?d = "(of_char c :: nat) - 48"
  from Cons.prems(1) have dig: "is_digit c" and rest: "\<forall>c\<in>set cs. is_digit c" by simp_all
  from Cons.prems(2) have fit': "decimal_from (unat n * 10 + ?d) cs < 2 ^ 64"
    by (simp add: decimal_from_Cons)
  have "unat n * 10 + ?d \<le> decimal_from (unat n * 10 + ?d) cs" by (rule decimal_from_ge)
  with fit' have fit: "unat n * 10 + ?d < 2 ^ 64" by simp
  note s = step_no_overflow [OF digit_le_9 [OF dig] fit]
  from fit' s(2) have "decimal_from (unat (n * 10 + of_nat ?d)) cs < 2 ^ 64" by simp
  from Cons.IH [OF rest this]
  have "ParseUint_loop s0 (n * 10 + of_nat ?d) cs = Inr (of_nat (decimal_from (unat n * 10 + ?d) cs))"
    by (simp add: s(2))
  with dig s(1) s(3) s(4) show ?case
    by (simp add: is_digit_def decimal_from_Cons Let_def)
qed

lemma ParseUint_loop_accepted:
  assumes "ParseUint_loop s0 n cs = Inr m"
  shows "(\<forall>c\<in>set cs. is_digit c) \<and> decimal_from (unat n) cs < 2 ^ 64 \<and>
         m = of_nat (decimal_from (unat n) cs)"
  using assms
proof (induction cs arbitrary: n)
  case Nil
  have "unat n < 2 ^ 64" using unsigned_less [of n, where ?'a = nat] by simp
  with Nil show ?case by (simp add: decimal_from_Nil)
next
  case (Cons c cs)
  let ?d = "(of_char c :: nat) - 48"
  from Cons.prems have dig: "is_digit c"
    by (auto simp: is_digit_def split: if_splits)
  from Cons.prems dig have c: "\<not> n \<ge> cutoff"
    by (auto simp: is_digit_def split: if_splits)
  from Cons.prems dig c have a: "\<not> (n * 10 + of_nat ?d < n * 10)"
    and run: "ParseUint_loop s0 (n * 10 + of_nat ?d) cs = Inr m"
    by (auto simp: is_digit_def Let_def split: if_splits)
  note u = step_overflow [OF digit_le_9 [OF dig] c a]
  from Cons.IH [OF run] u dig show ?case
    by (simp add: decimal_from_Cons)
qed

lemma ParseUint_iff:
  "ParseUint s = Inr n \<longleftrightarrow>
     s \<noteq> [] \<and> (\<forall>c\<in>set s. is_digit c) \<and> decimal_value s < 2 ^ 64 \<and> n = of_nat (decimal_value s)"
proof
  assume "ParseUint s = Inr n"
  then have ne: "s \<noteq> []" and "ParseUint_loop s 0 s = Inr n"
    by (auto simp: ParseUint_def split: if_splits)
  from ParseUint_loop_accepted [OF this(2)] ne
  show "s \<noteq> [] \<and> (\<forall>c\<in>set s. is_digit c) \<and> decimal_value s < 2 ^ 64 \<and> n = of_nat (decimal_value s)"
    by (simp add: decimal_value_def)
next
  assume r: "s \<noteq> [] \<and> (\<forall>c\<in>set s. is_digit c) \<and> decimal_value s < 2 ^ 64 \<and> n = of_nat (decimal_value s)"
  then have "decimal_from (unat (0 :: uint64)) s < 2 ^ 64" by (simp add: decimal_value_def)
  with r have "ParseUint_loop s 0 s = Inr (of_nat (decimal_from (unat (0 :: uint64)) s))"
    by (intro ParseUint_loop_accepts) simp_all
  with r show "ParseUint s = Inr n" by (simp add: ParseUint_def decimal_value_def)
qed

lemma ParseUint_rejects_iff:
  "isl (ParseUint s) \<longleftrightarrow> \<not> (s \<noteq> [] \<and> (\<forall>c\<in>set s. is_digit c) \<and> decimal_value s < 2 ^ 64)"
proof (cases "ParseUint s")
  case (Inl e)
  have "\<not> (s \<noteq> [] \<and> (\<forall>c\<in>set s. is_digit c) \<and> decimal_value s < 2 ^ 64)"
  proof
    assume "s \<noteq> [] \<and> (\<forall>c\<in>set s. is_digit c) \<and> decimal_value s < 2 ^ 64"
    then have "ParseUint s = Inr (of_nat (decimal_value s))" by (simp add: ParseUint_iff)
    with Inl show False by simp
  qed
  with Inl show ?thesis by simp
next
  case (Inr n)
  from ParseUint_iff [THEN iffD1, OF Inr] Inr show ?thesis by simp
qed

lemma ParseUint_rejects: "isl (ParseUint s) \<longleftrightarrow> \<not> is_uint64 s"
  by (simp add: ParseUint_rejects_iff is_uint64_def)

lemma parseRange_no_separator: "CHR ''-'' \<notin> set r \<Longrightarrow> parseRange r = Inl (BadRange r)"
  using SplitN2_length [of r "CHR ''-''"] by (simp add: parseRange_def Let_def)

lemma parseRange_bounds:
  assumes "CHR ''-'' \<notin> set lo"
  shows "parseRange (lo @ CHR ''-'' # hi) =
     (case ParseUint (TrimSpace lo) of
        Inl err \<Rightarrow> Inl err
      | Inr l \<Rightarrow> (case ParseUint (TrimSpace hi) of Inl err \<Rightarrow> Inl err | Inr h \<Rightarrow> Inr (l, h)))"
  by (simp add: parseRange_def SplitN2_parts [OF assms] split: sum.splits)

lemma UnmarshalJSON_loop_fails_iff:
  "fst (UnmarshalJSON_loop toks rs) \<noteq> None \<longleftrightarrow> (\<exists>r\<in>set toks. isl (parseRange r))"
  by (induction toks arbitrary: rs) (auto split: sum.splits)

lemma UnmarshalJSON_loop_error:
  "UnmarshalJSON_loop toks rs = (Some e, rs') \<Longrightarrow>
   \<exists>good bad rest kept.
      toks = good @ bad # rest \<and> list_all2 (\<lambda>r rng. parseRange r = Inr rng) good kept \<and>
      parseRange bad = Inl e \<and> rs' = rs @ kept"
proof (induction toks arbitrary: rs)
  case Nil
  then show ?case by simp
next
  case (Cons r toks)
  show ?case
  proof (cases "parseRange r")
    case (Inl err)
    with Cons.prems have "err = e" "rs' = rs" by simp_all
    with Inl have "r # toks = [] @ r # toks \<and> list_all2 (\<lambda>r rng. parseRange r = Inr rng) [] []
      \<and> parseRange r = Inl e \<and> rs' = rs @ []" by simp
    then show ?thesis by blast
  next
    case (Inr rng)
    with Cons.prems have "UnmarshalJSON_loop toks (rs @ [rng]) = (Some e, rs')" by simp
    from Cons.IH [OF this] obtain good bad rest kept where
      g: "toks = good @ bad # rest" "list_all2 (\<lambda>r rng. parseRange r = Inr rng) good kept"
         "parseRange bad = Inl e" "rs' = (rs @ [rng]) @ kept" by blast
    with Inr have "r # toks = (r # good) @ bad # rest \<and>
        list_all2 (\<lambda>r rng. parseRange r = Inr rng) (r # good) (rng # kept) \<and>
        parseRange bad = Inl e \<and> rs' = rs @ (rng # kept)" by simp
    then show ?thesis by blast
  qed
qed

lemma size_ranges_fold:
  "fold (\<lambda>r sz. sz + (1 + (snd r - fst r))) rs a =
     a + sum_list (map (\<lambda>r. 1 + (snd r - fst r)) rs)"
  by (induction rs arbitrary: a) (simp_all add: add.assoc)

lemma size_ranges_word: "size_ranges rs = sum_list (map (\<lambda>r. 1 + (snd r - fst r)) rs)"
  by (simp add: size_ranges_def size_ranges_fold)

lemma of_nat_sum_list_map:
  "(of_nat (sum_list (map f xs)) :: uint64) = sum_list (map (\<lambda>x. of_nat (f x)) xs)"
  by (induction xs) simp_all

lemma range_count_word:
  fixes r :: "uint64 \<times> uint64"
  assumes "fst r \<le> snd r"
  shows "(of_nat (unat (snd r) - unat (fst r) + 1) :: uint64) = 1 + (snd r - fst r)"
proof -
  have "unat (snd r - fst r) = unat (snd r) - unat (fst r)"
    using assms by (simp add: unat_sub)
  then have "(of_nat (unat (snd r) - unat (fst r)) :: uint64) = snd r - fst r"
    by (metis of_nat_unat ucast_id)
  then show ?thesis by simp
qed

lemma size_ranges_unat:
  assumes "\<forall>r\<in>set rs. fst r \<le> snd r"
  shows "unat (size_ranges rs) =
     sum_list (map (\<lambda>r. unat (snd r) - unat (fst r) + 1) rs) mod 2 ^ 64"
proof -
  have "map (\<lambda>r. (of_nat (unat (snd r) - unat (fst r) + 1) :: uint64)) rs =
        map (\<lambda>r. 1 + (snd r - fst r)) rs"
    using assms by (intro map_cong refl range_count_word) auto
  then have "size_ranges rs = of_nat (sum_list (map (\<lambda>r. unat (snd r) - unat (fst r) + 1) rs))"
    by (simp only: size_ranges_word of_nat_sum_list_map)
  then show ?thesis by (simp add: unat_of_nat)
qed

text \<open>
  Claim C1, as the code has it. The claim says that a parse error leaves the receiver
  unchanged. The loop appends each well-formed range to the receiver before it reads the
  next token, so a malformed token that follows well-formed ones leaves those in the
  receiver: on \<^verbatim>\<open>0-3,abc\<close> the call returns the error for \<^verbatim>\<open>abc\<close> and the receiver
  holds the range 0..3.
\<close>

theorem UnmarshalJSON_error_keeps_parsed_prefix_counterexample:
  "fst (UnmarshalJSON [] ''0-3,abc'') = Some (BadRange ''abc'') \<and>
   snd (UnmarshalJSON [] ''0-3,abc'') = [(0, 3)] \<and>
   snd (UnmarshalJSON [] ''0-3,abc'') \<noteq> []"
  by code_simp

text \<open>
  Claim C1, amended: when \<^verbatim>\<open>UnmarshalJSON\<close> returns a parse error \<open>e\<close>, the tokens split
  into well-formed tokens, the first malformed token (whose error is \<open>e\<close>) and the rest;
  the receiver keeps its prior contents followed by the ranges of those well-formed
  tokens, and nothing of what follows the malformed token.
\<close>

theorem UnmarshalJSON_error_keeps_parsed_prefix:
  assumes "UnmarshalJSON rs data = (Some e, rs')"
  shows "\<exists>good bad rest kept.
           Split (Trim data [CHR ''['', CHR '']'', CHR 0x22]) CHR '','' = good @ bad # rest \<and>
           list_all2 (\<lambda>r rng. parseRange r = Inr rng) good kept \<and>
           parseRange bad = Inl e \<and>
           rs' = rs @ kept"
proof -
  let ?data' = "Trim data [CHR ''['', CHR '']'', CHR 0x22]"
  from assms have ne: "?data' \<noteq> []"
    by (auto simp: UnmarshalJSON_def Let_def split: if_splits)
  with assms have "UnmarshalJSON_loop (Split ?data' CHR '','') rs = (Some e, rs')"
    by (simp add: UnmarshalJSON_def Let_def)
  then show ?thesis by (rule UnmarshalJSON_loop_error)
qed

theorem UnmarshalJSON_error_keeps_parsed_prefix_witness:
  "\<exists>good bad rest kept.
     Split (Trim ''0-3,abc'' [CHR ''['', CHR '']'', CHR 0x22]) CHR '','' = good @ bad # rest \<and>
     list_all2 (\<lambda>r rng. parseRange r = Inr rng) good kept \<and>
     parseRange bad = Inl (BadRange ''abc'') \<and>
     [(0, 3)] = [] @ kept"
proof -
  have "UnmarshalJSON [] ''0-3,abc'' = (Some (BadRange ''abc''), [(0, 3)])"
    by code_simp
  then show ?thesis by (rule UnmarshalJSON_error_keeps_parsed_prefix)
qed

text \<open>
  Claim C7: for a range-list whose pairs all have \<open>lo \<le> hi\<close>, \<^verbatim>\<open>size\<close> is the sum of
  \<open>hi - lo + 1\<close> over the pairs, in the arithmetic of the \<^verbatim>\<open>uint64\<close> it is computed in
  (the sum modulo \<open>2^64\<close>, hence the sum itself whenever that fits 64 bits). Every pair of
  the list counts, also one that overlaps or repeats another: a list followed by itself
  has twice the size. The ranges parsed from \<^verbatim>\<open>0-3,10-12\<close> have size 7.
\<close>

theorem size_ranges_is_sum:
  assumes "\<forall>r\<in>set rs. fst r \<le> snd r"
  shows "unat (size_ranges rs) =
           sum_list (map (\<lambda>r. unat (snd r) - unat (fst r) + 1) rs) mod 2 ^ 64 \<and>
         (sum_list (map (\<lambda>r. unat (snd r) - unat (fst r) + 1) rs) < 2 ^ 64 \<longrightarrow>
            unat (size_ranges rs) = sum_list (map (\<lambda>r. unat (snd r) - unat (fst r) + 1) rs)) \<and>
         size_ranges (rs @ rs) = 2 * size_ranges rs \<and>
         size_ranges [(0, 3), (2, 5)] = 8 \<and>
         size_ranges (snd (UnmarshalJSON [] ''0-3,10-12'')) = 7"
proof -
  have a: "unat (size_ranges rs) =
      sum_list (map (\<lambda>r. unat (snd r) - unat (fst r) + 1) rs) mod 2 ^ 64"
    using assms by (rule size_ranges_unat)
  have b: "size_ranges (rs @ rs) = 2 * size_ranges rs"
    by (simp add: size_ranges_word)
  have c: "size_ranges [(0, 3), (2, 5)] = 8"
    by (simp add: size_ranges_def)
  have d: "size_ranges (snd (UnmarshalJSON [] ''0-3,10-12'')) = 7"
    by code_simp
  from a b c d show ?thesis by simp
qed

theorem size_ranges_is_sum_witness:
  "unat (size_ranges [(0, 3), (10, 12)]) = 7"
proof -
  have h: "\<forall>r\<in>set [(0, 3), (10, 12 :: uint64)]. fst r \<le> snd r" by simp
  show ?thesis using size_ranges_is_sum [OF h] by simp
qed

text \<open>
  Claim C8: the empty input gives the empty range-list and no error (an input that is empty
  once its bracket and quote decoration is stripped returns no error and leaves the
  receiver as it is). For an input that is not empty then, every comma-separated token
  that holds no \<^verbatim>\<open>-\<close>, and every token \<^verbatim>\<open>lo-hi\<close> (split at its first \<^verbatim>\<open>-\<close>) one of whose
  bounds, trimmed of white space, is not the decimal numeral of a \<^verbatim>\<open>uint64\<close>, makes the
  call return an error. \<^verbatim>\<open>abc\<close>, \<^verbatim>\<open>5\<close> and \<^verbatim>\<open>5-\<close> are rejected.
\<close>

theorem UnmarshalJSON_rejects_malformed:
  "UnmarshalJSON [] [] = (None, []) \<and>
   (Trim data [CHR ''['', CHR '']'', CHR 0x22] = [] \<longrightarrow> UnmarshalJSON rs data = (None, rs)) \<and>
   (\<forall>r\<in>set (Split (Trim data [CHR ''['', CHR '']'', CHR 0x22]) CHR '','').
      Trim data [CHR ''['', CHR '']'', CHR 0x22] \<noteq> [] \<and>
      (CHR ''-'' \<notin> set r \<or>
       (\<exists>lo hi. r = lo @ CHR ''-'' # hi \<and> CHR ''-'' \<notin> set lo \<and>
           (\<not> is_uint64 (TrimSpace lo) \<or> \<not> is_uint64 (TrimSpace hi))))
      \<longrightarrow> fst (UnmarshalJSON rs data) \<noteq> None) \<and>
   fst (UnmarshalJSON [] ''abc'') = Some (BadRange ''abc'') \<and>
   fst (UnmarshalJSON [] ''5'') = Some (BadRange ''5'') \<and>
   fst (UnmarshalJSON [] ''5-'') = Some (ErrSyntax [])"
proof -
  let ?data' = "Trim data [CHR ''['', CHR '']'', CHR 0x22]"
  have empty: "UnmarshalJSON [] [] = (None, [])"
    by (simp add: UnmarshalJSON_def Trim_def)
  have decorated: "?data' = [] \<longrightarrow> UnmarshalJSON rs data = (None, rs)"
    by (simp add: UnmarshalJSON_def)
  have bad: "fst (UnmarshalJSON rs data) \<noteq> None"
    if r: "r \<in> set (Split ?data' CHR '','')" and ne: "?data' \<noteq> []"
      and mal: "CHR ''-'' \<notin> set r \<or>
        (\<exists>lo hi. r = lo @ CHR ''-'' # hi \<and> CHR ''-'' \<notin> set lo \<and>
           (\<not> is_uint64 (TrimSpace lo) \<or> \<not> is_uint64 (TrimSpace hi)))"
    for r
  proof -
    from mal have "isl (parseRange r)"
    proof
      assume "CHR ''-'' \<notin> set r"
      then show ?thesis by (simp add: parseRange_no_separator)
    next
      assume "\<exists>lo hi. r = lo @ CHR ''-'' # hi \<and> CHR ''-'' \<notin> set lo \<and>
           (\<not> is_uint64 (TrimSpace lo) \<or> \<not> is_uint64 (TrimSpace hi))"
      then obtain lo hi where "r = lo @ CHR ''-'' # hi" "CHR ''-'' \<notin> set lo"
        "isl (ParseUint (TrimSpace lo)) \<or> isl (ParseUint (TrimSpace hi))"
        unfolding ParseUint_rejects by blast
      then show ?thesis
        by (auto simp: parseRange_bounds split: sum.splits)
    qed
    with r have "fst (UnmarshalJSON_loop (Split ?data' CHR '','') rs) \<noteq> None"
      unfolding UnmarshalJSON_loop_fails_iff by blast
    with ne show ?thesis by (simp add: UnmarshalJSON_def Let_def)
  qed
  have e1: "fst (UnmarshalJSON [] ''abc'') = Some (BadRange ''abc'')" by code_simp
  have e2: "fst (UnmarshalJSON [] ''5'') = Some (BadRange ''5'')" by code_simp
  have e3: "fst (UnmarshalJSON [] ''5-'') = Some (ErrSyntax [])" by code_simp
  from empty decorated bad e1 e2 e3 show ?thesis by blast
qed

theorem UnmarshalJSON_rejects_malformed_witness:
  "fst (UnmarshalJSON [] ''[0-3, 5-x]'') \<noteq> None"
proof -
  have tok: "'' 5-x'' \<in> set (Split (Trim ''[0-3, 5-x]'' [CHR ''['', CHR '']'', CHR 0x22]) CHR '','')"
    by code_simp
  have ne: "Trim ''[0-3, 5-x]'' [CHR ''['', CHR '']'', CHR 0x22] \<noteq> []"
    by code_simp
  have "\<not> is_uint64 (TrimSpace ''x'')"
    by code_simp
  then have mal: "\<exists>lo hi. '' 5-x'' = lo @ CHR ''-'' # hi \<and> CHR ''-'' \<notin> set lo \<and>
      (\<not> is_uint64 (TrimSpace lo) \<or> \<not> is_uint64 (TrimSpace hi))"
    by (intro exI [of _ "'' 5''"] exI [of _ "''x''"]) simp
  from UnmarshalJSON_rejects_malformed [of "''[0-3, 5-x]''" "[]"] tok ne mal
  show ?thesis by blast
qed

section \<open>Properties of the attribute normalizer\<close>

lemma validLabelChar_underscore: "validLabelChar CHR ''_''"
  by (simp add: validLabelChar_def)

lemma normaliseLabel_valid: "c \<in> set (normaliseLabel x) \<Longrightarrow> validLabelChar c"
  by (auto simp: normaliseLabel_def validLabelChar_underscore)

lemma normaliseLabel_fixed: "\<forall>c\<in>set x. validLabelChar c \<Longrightarrow> normaliseLabel x = x"
  by (induction x) (simp_all add: normaliseLabel_def)

lemma normaliseLabel_agree:
  "list_all2 (\<lambda>a b. a = b \<or> (\<not> validLabelChar a \<and> \<not> validLabelChar b)) x y \<Longrightarrow>
   normaliseLabel x = normaliseLabel y"
  by (induction x y rule: list_all2_induct) (auto simp: normaliseLabel_def)

text \<open>
  Claim C10: the normalizer is a function of its argument alone (a HOL function: equal
  keys give equal results, and nothing else is read or written). It is idempotent; it
  keeps the length, keeps every character of \<^verbatim>\<open>[A-Za-z0-9_]\<close> and puts \<^verbatim>\<open>_\<close> in the place
  of every other character, so its result holds allowed characters only;
  \<^verbatim>\<open>rack-id\<close> becomes \<^verbatim>\<open>rack_id\<close>; and two keys that, position by position, are equal or
  both hold a disallowed character have the same normal form.
\<close>

theorem normaliseLabel_idempotent:
  "normaliseLabel (normaliseLabel x) = normaliseLabel x \<and>
   length (normaliseLabel x) = length x \<and>
   (\<forall>i<length x. normaliseLabel x ! i = (if validLabelChar (x ! i) then x ! i else CHR ''_'')) \<and>
   (\<forall>c\<in>set (normaliseLabel x). validLabelChar c) \<and>
   normaliseLabel ''rack-id'' = ''rack_id'' \<and>
   (list_all2 (\<lambda>a b. a = b \<or> (\<not> validLabelChar a \<and> \<not> validLabelChar b)) x y \<longrightarrow>
      normaliseLabel x = normaliseLabel y)"
proof -
  have valid: "\<forall>c\<in>set (normaliseLabel x). validLabelChar c"
    by (simp add: normaliseLabel_valid)
  then have idem: "normaliseLabel (normaliseLabel x) = normaliseLabel x"
    by (rule normaliseLabel_fixed)
  have len: "length (normaliseLabel x) = length x"
    by (simp add: normaliseLabel_def)
  have pointwise:
    "\<forall>i<length x. normaliseLabel x ! i = (if validLabelChar (x ! i) then x ! i else CHR ''_'')"
    by (simp add: normaliseLabel_def)
  have ex: "normaliseLabel ''rack-id'' = ''rack_id''"
    by (simp add: normaliseLabel_def validLabelChar_def)
  from idem len pointwise valid ex normaliseLabel_agree [of x y] show ?thesis
    by blast
qed

theorem normaliseLabel_idempotent_witness:
  "normaliseLabel ''rack-id'' = normaliseLabel ''rack.id'' \<and>
   normaliseLabel (normaliseLabel ''rack.id'') = ''rack_id''"
proof -
  have h: "list_all2 (\<lambda>a b. a = b \<or> (\<not> validLabelChar a \<and> \<not> validLabelChar b))
      ''rack-id'' ''rack.id''"
    by (simp add: validLabelChar_def)
  have v: "normaliseLabel ''rack.id'' = ''rack_id''"
    by (simp add: normaliseLabel_def validLabelChar_def)
  from normaliseLabel_idempotent [of "''rack-id''" "''rack.id''"] h
  have a: "normaliseLabel ''rack-id'' = normaliseLabel ''rack.id''" by blast
  from normaliseLabel_idempotent [of "''rack.id''" "''rack.id''"]
  have b: "normaliseLabel (normaliseLabel ''rack.id'') = normaliseLabel ''rack.id''" by blast
  from a b v show ?thesis by simp
qed

section \<open>Properties of the arithmetic on \<^verbatim>\<open>float64\<close>\<close>

lemma bits_le: "n < 2 ^ k \<Longrightarrow> bits n \<le> k"
proof (induction k arbitrary: n)
  case 0
  then show ?case by (simp add: bits.simps)
next
  case (Suc k)
  show ?case
  proof (cases "n = 0")
    case True
    then show ?thesis by (simp add: bits.simps)
  next
    case False
    from Suc.prems have "n div 2 < 2 ^ k" by simp
    from Suc.IH [OF this] False show ?thesis by (subst bits.simps) simp
  qed
qed

lemma float64_of_uint64_exact:
  "unat w < 2 ^ 53 \<Longrightarrow> float64_of_uint64 w = Finite (real (unat w))"
  using bits_le [of "unat w" 53] by (simp add: float64_of_uint64_def Let_def)

lemma bits_gt: "2 ^ k \<le> n \<Longrightarrow> k < bits n"
proof (induction k arbitrary: n)
  case 0
  then show ?case by (subst bits.simps) simp
next
  case (Suc k)
  then have "2 ^ k \<le> n div 2" by simp
  moreover from Suc.prems have "n \<noteq> 0"
    by (metis power_not_zero zero_neq_numeral le_zero_eq)
  ultimately show ?case using Suc.IH [of "n div 2"] by (subst bits.simps) simp
qed

lemma bits_eq: "2 ^ k \<le> n \<Longrightarrow> n < 2 ^ Suc k \<Longrightarrow> bits n = Suc k"
  using bits_le [of n "Suc k"] bits_gt [of k n] by simp

lemma float64_of_uint64_rounds:
  "float64_of_uint64 (2 ^ 53 + 1) = Finite (2 ^ 53)"
  "float64_of_uint64 (2 ^ 53 + 3) = Finite (2 ^ 53 + 4)"
  "float64_of_uint64 (2 ^ 64 - 1) = Finite (2 ^ 64)"
proof -
  have 1: "unat (2 ^ 53 + 1 :: uint64) = 2 ^ 53 + 1"
    and 2: "unat (2 ^ 53 + 3 :: uint64) = 2 ^ 53 + 3"
    and 3: "unat (2 ^ 64 - 1 :: uint64) = 2 ^ 64 - 1"
    by simp_all
  have b1: "bits (2 ^ 53 + 1) = 54" using bits_eq [of 53 "2 ^ 53 + 1"] by simp
  have b2: "bits (2 ^ 53 + 3) = 54" using bits_eq [of 53 "2 ^ 53 + 3"] by simp
  have b3: "bits (2 ^ 64 - 1) = 64" using bits_eq [of 63 "2 ^ 64 - 1"] by simp
  show "float64_of_uint64 (2 ^ 53 + 1) = Finite (2 ^ 53)"
    unfolding float64_of_uint64_def 1 Let_def b1 by simp
  show "float64_of_uint64 (2 ^ 53 + 3) = Finite (2 ^ 53 + 4)"
    unfolding float64_of_uint64_def 2 Let_def b2 by simp
  show "float64_of_uint64 (2 ^ 64 - 1) = Finite (2 ^ 64)"
    unfolding float64_of_uint64_def 3 Let_def b3 by simp
qed

lemma pow_split: "(2 :: real) ^ 2045 / 2 ^ 1074 = 2 ^ 971"
proof -
  have "(2 :: real) ^ 2045 = 2 ^ 971 * 2 ^ 1074" by (simp add: power_add [symmetric])
  then show ?thesis by simp
qed

lemma is_float64_mul_1024:
  assumes "is_float64 r" and "\<bar>r * 1024\<bar> \<le> MaxFloat64"
  shows "is_float64 (r * 1024)"
proof -
  from assms(1) obtain m :: int and e :: nat where
    m: "\<bar>m\<bar> < 2 ^ 53" and e: "e \<le> 2045" and r: "r = of_int m * 2 ^ e / 2 ^ 1074"
    unfolding is_float64_def by blast
  have k: "(1024 :: real) = 2 ^ 10" by simp
  show ?thesis
  proof (cases "e + 10 \<le> 2045")
    case True
    have "r * 1024 = of_int m * 2 ^ (e + 10) / 2 ^ 1074"
      unfolding r k power_add by simp
    with m True show ?thesis unfolding is_float64_def by blast
  next
    case False
    define d where "d = e + 10 - 2045"
    have ed: "e + 10 = d + 2045" using False by (simp add: d_def)
    have "r * 1024 = of_int m * 2 ^ (e + 10) / 2 ^ 1074"
      unfolding r k power_add by simp
    also have "\<dots> = of_int (m * 2 ^ d) * (2 ^ 2045 / 2 ^ 1074)"
      unfolding ed power_add by simp
    finally have eq: "r * 1024 = of_int (m * 2 ^ d) * 2 ^ 971"
      unfolding pow_split .
    have "\<bar>of_int (m * 2 ^ d) :: real\<bar> * 2 ^ 971 \<le> (2 ^ 53 - 1) * 2 ^ 971"
      using assms(2) unfolding eq MaxFloat64_def by (simp add: abs_mult)
    then have "\<bar>of_int (m * 2 ^ d) :: real\<bar> \<le> 2 ^ 53 - 1"
      by (simp only: mult_le_cancel_right_pos zero_less_power zero_less_numeral)
    then have "\<bar>m * 2 ^ d\<bar> \<le> 2 ^ 53 - 1"
      by (metis (mono_tags) of_int_abs of_int_le_iff of_int_diff of_int_numeral of_int_power of_int_1)
    then have "\<bar>m * 2 ^ d\<bar> < 2 ^ 53" by simp
    moreover have "r * 1024 = of_int (m * 2 ^ d) * 2 ^ 2045 / 2 ^ 1074"
      using eq pow_split by simp
    ultimately show ?thesis unfolding is_float64_def by blast
  qed
qed

lemma is_float64_overflow:
  assumes "is_float64 r" and "\<bar>r * 1024\<bar> > MaxFloat64"
  shows "\<bar>r * 1024\<bar> \<ge> 2 ^ 1024"
proof -
  from assms(1) obtain m :: int and e :: nat where
    m: "\<bar>m\<bar> < 2 ^ 53" and e: "e \<le> 2045" and r: "r = of_int m * 2 ^ e / 2 ^ 1074"
    unfolding is_float64_def by blast
  have k: "(1024 :: real) = 2 ^ 10" by simp
  define d where "d = e + 10 - 2045"
  have r10: "r * 1024 = of_int m * 2 ^ (e + 10) / 2 ^ 1074"
    unfolding r k power_add by simp
  have m': "\<bar>of_int m :: real\<bar> \<le> 2 ^ 53 - 1"
  proof -
    from m have "\<bar>m\<bar> \<le> 2 ^ 53 - 1" by simp
    then have "(of_int \<bar>m\<bar> :: real) \<le> of_int (2 ^ 53 - 1)" by (simp only: of_int_le_iff)
    then show ?thesis by simp
  qed
  have big: "e + 10 > 2045"
  proof (rule ccontr)
    assume "\<not> e + 10 > 2045"
    then have "e + 10 \<le> 2045" by simp
    then have "(2 :: real) ^ (e + 10) \<le> 2 ^ 2045" by (rule power_increasing) simp
    then have "\<bar>of_int m :: real\<bar> * 2 ^ (e + 10) \<le> (2 ^ 53 - 1) * 2 ^ 2045"
      using m' by (intro mult_mono) simp_all
    then have "\<bar>of_int m :: real\<bar> * 2 ^ (e + 10) / 2 ^ 1074 \<le> (2 ^ 53 - 1) * (2 ^ 2045 / 2 ^ 1074)"
      by (simp add: divide_right_mono)
    then have "\<bar>r * 1024\<bar> \<le> MaxFloat64"
      unfolding r10 MaxFloat64_def pow_split by (simp add: abs_mult)
    with assms(2) show False by simp
  qed
  then have ed: "e + 10 = d + 2045" by (simp add: d_def)
  have eq: "r * 1024 = of_int (m * 2 ^ d) * 2 ^ 971"
  proof -
    have "r * 1024 = of_int (m * 2 ^ d) * (2 ^ 2045 / 2 ^ 1074)"
      unfolding r10 ed power_add by simp
    then show ?thesis unfolding pow_split .
  qed
  have "(2 ^ 53 - 1) * 2 ^ 971 < \<bar>of_int (m * 2 ^ d) :: real\<bar> * 2 ^ 971"
    using assms(2) unfolding eq MaxFloat64_def by (simp add: abs_mult)
  then have "2 ^ 53 - 1 < \<bar>of_int (m * 2 ^ d) :: real\<bar>"
    by (simp only: mult_less_cancel_right_pos zero_less_power zero_less_numeral)
  then have "(of_int (2 ^ 53 - 1) :: real) < of_int \<bar>m * 2 ^ d\<bar>" by simp
  then have "2 ^ 53 - 1 < \<bar>m * 2 ^ d\<bar>" by (simp only: of_int_less_iff)
  then have "2 ^ 53 \<le> \<bar>m * 2 ^ d\<bar>" by simp
  then have "(of_int (2 ^ 53) :: real) \<le> of_int \<bar>m * 2 ^ d\<bar>" by (simp only: of_int_le_iff)
  then have "(2 :: real) ^ 53 \<le> \<bar>of_int (m * 2 ^ d)\<bar>" by simp
  then have "(2 :: real) ^ 53 * 2 ^ 971 \<le> \<bar>of_int (m * 2 ^ d)\<bar> * 2 ^ 971"
    by (simp only: mult_le_cancel_right_pos zero_less_power zero_less_numeral)
  moreover have "(2 :: real) ^ 53 * 2 ^ 971 = 2 ^ 1024" by (simp add: power_add [symmetric])
  ultimately show ?thesis unfolding eq by (simp add: abs_mult)
qed

lemma mul_1024_float64:
  assumes "is_float64 r"
  shows "(\<bar>r * 1024\<bar> \<le> MaxFloat64 \<and> is_float64 (r * 1024) \<and>
            mul_1024 (Finite r) = Finite (r * 1024)) \<or>
         (2 ^ 1024 \<le> \<bar>r * 1024\<bar> \<and>
            mul_1024 (Finite r) = (if 0 < r then PosInf else NegInf))"
proof (cases "\<bar>r * 1024\<bar> \<le> MaxFloat64")
  case True
  then have "mul_1024 (Finite r) = Finite (r * 1024)" by auto
  with True is_float64_mul_1024 [OF assms True] show ?thesis by simp
next
  case False
  then have big: "MaxFloat64 < \<bar>r * 1024\<bar>" by simp
  have pos: "0 < MaxFloat64" by (simp add: MaxFloat64_def)
  have "mul_1024 (Finite r) = (if 0 < r then PosInf else NegInf)"
    using big pos by (auto simp: abs_if split: if_splits)
  with is_float64_overflow [OF assms big] show ?thesis by simp
qed

section \<open>Properties of the closures and of the collection cycle\<close>

lemma find_app:
  "find P (xs @ ys) = (case find P xs of None \<Rightarrow> find P ys | Some x \<Rightarrow> Some x)"
  by (induction xs) simp_all

lemma fold_upd_lookup:
  "fold (\<lambda>x m. m(lvs x \<mapsto> val x)) xs ch k =
     (case find (\<lambda>x. lvs x = k) (rev xs) of None \<Rightarrow> ch k | Some x \<Rightarrow> Some (val x))"
proof (induction xs arbitrary: ch)
  case Nil
  show ?case by simp
next
  case (Cons x xs)
  have "fold (\<lambda>x m. m(lvs x \<mapsto> val x)) (x # xs) ch k =
        fold (\<lambda>x m. m(lvs x \<mapsto> val x)) xs (ch(lvs x \<mapsto> val x)) k"
    by simp
  also have "\<dots> = (case find (\<lambda>x. lvs x = k) (rev xs) of
                      None \<Rightarrow> (ch(lvs x \<mapsto> val x)) k | Some x \<Rightarrow> Some (val x))"
    by (rule Cons.IH)
  also have "\<dots> = (case find (\<lambda>x. lvs x = k) (rev (x # xs)) of
                      None \<Rightarrow> ch k | Some x \<Rightarrow> Some (val x))"
    by (simp add: find_app split: option.splits)
  finally show ?case .
qed

lemma fold_upd_empty:
  "fold (\<lambda>x m. m(lvs x \<mapsto> val x)) xs Map.empty =
     (\<lambda>k. map_option val (find (\<lambda>x. lvs x = k) (rev xs)))"
  by (rule ext) (simp add: fold_upd_lookup split: option.splits)

lemma range_Set_GaugeVec:
  "\<forall>x\<in>set xs. length (lvs x) = length ls \<Longrightarrow>
   range_Set lvs val xs (GaugeVec opts ls ch) =
     Inr (GaugeVec opts ls (fold (\<lambda>x m. m(lvs x \<mapsto> val x)) xs ch))"
  by (induction xs arbitrary: ch) simp_all

lemma slaveGauge_GaugeVec:
  "length ls = 2 \<Longrightarrow>
   slaveGauge val st (GaugeVec opts ls ch) =
     Inr (GaugeVec opts ls
       (\<lambda>k. map_option val (find (\<lambda>s. [PID s, Hostname s] = k) (rev (Slaves st)))))"
  by (simp add: slaveGauge_def range_Set_GaugeVec fold_upd_empty)

lemma frameworkGauge_GaugeVec:
  "length ls = 1 \<Longrightarrow>
   frameworkGauge val st (GaugeVec opts ls ch) =
     Inr (GaugeVec opts ls
       (\<lambda>k. map_option val (find (\<lambda>f. [framework.Name f] = k) (rev (Frameworks st)))))"
  by (simp add: frameworkGauge_def range_Set_GaugeVec fold_upd_empty)

lemma attributes_loop_counter:
  "attributes_loop aS gLV nls export ss (SettableCounterVec a b h ls ch) =
     Inr (SettableCounterVec a b h ls
       (fold (\<lambda>s m. m(gLV (slaveAttributesExport aS nls s) export \<mapsto> Finite 1)) ss ch))"
  by (induction ss arbitrary: ch) simp_all

lemma total_slaveGauge: "total_entry (GaugeVec opts labels ch0, slaveGauge val)"
  unfolding total_entry_def
  by (intro allI exI) (simp add: labels_def slaveGauge_GaugeVec)

lemma total_frameworkGauge: "total_entry (GaugeVec opts framework_labels ch0, frameworkGauge val)"
  unfolding total_entry_def
  by (intro allI exI) (simp add: framework_labels_def frameworkGauge_GaugeVec)

lemma total_attributes:
  "total_entry (SettableCounterVec a b h ls ch0, attributes_closure aS gLV nls export)"
  unfolding total_entry_def
  by (intro allI exI) (simp add: attributes_closure_def attributes_loop_counter)

lemma memoryless_slaveGauge: "memoryless (GaugeVec opts labels ch0, slaveGauge val)"
  by (simp add: memoryless_def labels_def slaveGauge_GaugeVec)

lemma memoryless_frameworkGauge: "memoryless (GaugeVec opts framework_labels ch0, frameworkGauge val)"
  by (simp add: memoryless_def framework_labels_def frameworkGauge_GaugeVec)

lemma total_fixed_metrics: "list_all total_entry fixed_metrics"
  by (simp add: fixed_metrics_def total_slaveGauge total_frameworkGauge)

lemma memoryless_fixed_metrics: "list_all memoryless fixed_metrics"
  by (simp add: fixed_metrics_def memoryless_slaveGauge memoryless_frameworkGauge)

lemma length_fixed_metrics: "length fixed_metrics = 19"
  by (simp add: fixed_metrics_def)

lemma with_children_idem: "with_children (with_children c ch) ch' = with_children c ch'"
  by (cases c) simp_all

lemma with_children_children: "with_children c (children c) = c"
  by (cases c) simp_all

lemma same_registry_refl: "same_registry ms ms"
  unfolding same_registry_def
  by (rule list_all2_refl) (metis with_children_children)

lemma Collect_loop_same_registry:
  assumes "same_registry ms ms0" and "list_all total_entry ms0"
  shows "\<exists>ms' ch. Collect_loop st ms = Inr (ms', ch) \<and> same_registry ms' ms0 \<and>
           ch = map fst ms' \<and>
           list_all2 (\<lambda>e c'. snd e st (fst e) = Inr c') ms ch"
  using assms unfolding same_registry_def
proof (induction ms ms0 rule: list_all2_induct)
  case Nil
  show ?case by simp
next
  case (Cons e ms e0 ms0)
  obtain c set' where e: "e = (c, set')" by (cases e)
  from Cons.hyps(1) e obtain ch0 where set': "set' = snd e0" and c: "c = with_children (fst e0) ch0"
    by auto
  from Cons.prems have "total_entry e0" and rest: "list_all total_entry ms0" by simp_all
  then obtain ch' where run: "set' st c = Inr (with_children (fst e0) ch')"
    unfolding total_entry_def set' c by blast
  from Cons.IH [OF rest] obtain ms' ch where
    tl: "Collect_loop st ms = Inr (ms', ch)"
        "list_all2 (\<lambda>e e0. snd e = snd e0 \<and> (\<exists>ch. fst e = with_children (fst e0) ch)) ms' ms0"
        "ch = map fst ms'" "list_all2 (\<lambda>e c'. snd e st (fst e) = Inr c') ms ch"
    by blast
  let ?ms' = "(with_children (fst e0) ch', set') # ms'"
  let ?ch = "with_children (fst e0) ch' # ch"
  have 1: "Collect_loop st (e # ms) = Inr (?ms', ?ch)"
    by (simp add: e run tl(1))
  have 2: "list_all2 (\<lambda>e e0. snd e = snd e0 \<and> (\<exists>ch. fst e = with_children (fst e0) ch))
      ?ms' (e0 # ms0)"
    using tl(2) set' by auto
  have 3: "?ch = map fst ?ms'"
    using tl(3) by simp
  have 4: "list_all2 (\<lambda>e c'. snd e st (fst e) = Inr c') (e # ms) ?ch"
    using tl(4) run e by simp
  have "Collect_loop st (e # ms) = Inr (?ms', ?ch) \<and>
      list_all2 (\<lambda>e e0. snd e = snd e0 \<and> (\<exists>ch. fst e = with_children (fst e0) ch))
        ?ms' (e0 # ms0) \<and>
      ?ch = map fst ?ms' \<and>
      list_all2 (\<lambda>e c'. snd e st (fst e) = Inr c') (e # ms) ?ch"
    using 1 2 3 4 by (intro conjI)
  then show ?case by (intro exI)
qed

lemma same_registry_memoryless:
  assumes "same_registry ms ms0" and "list_all memoryless ms0"
    and "list_all2 (\<lambda>e c'. snd e st (fst e) = Inr c') ms ch"
  shows "list_all2 (\<lambda>e0 c'. snd e0 st (fst e0) = Inr c') ms0 ch"
proof -
  from assms(1) have len: "length ms = length ms0"
    by (simp add: same_registry_def list_all2_lengthD)
  from assms(3) have len': "length ms = length ch"
    by (rule list_all2_lengthD)
  show ?thesis
  proof (rule list_all2_all_nthI)
    show "length ms0 = length ch" using len len' by simp
  next
    fix n assume n: "n < length ms0"
    from assms(1) n len have r: "snd (ms ! n) = snd (ms0 ! n)"
        "\<exists>ch. fst (ms ! n) = with_children (fst (ms0 ! n)) ch"
      by (auto simp: same_registry_def list_all2_conv_all_nth)
    from assms(2) n have m: "memoryless (ms0 ! n)"
      by (simp add: list_all_length)
    from assms(3) n len have "snd (ms ! n) st (fst (ms ! n)) = Inr (ch ! n)"
      by (simp add: list_all2_conv_all_nth)
    with r m show "snd (ms0 ! n) st (fst (ms0 ! n)) = Inr (ch ! n)"
      unfolding memoryless_def by metis
  qed
qed

lemma same_registry_append:
  "same_registry ms (as @ bs) \<Longrightarrow>
   \<exists>us vs. ms = us @ vs \<and> same_registry us as \<and> same_registry vs bs"
  unfolding same_registry_def list_all2_append2 by blast

lemma dom_samples:
  "dom (\<lambda>k. map_option val (find (\<lambda>x. lvs x = k) (rev xs))) = lvs ` set xs"
proof -
  have "find (\<lambda>x. lvs x = k) (rev xs) \<noteq> None \<longleftrightarrow> k \<in> lvs ` set xs" for k
    by (auto simp: find_None_iff)
  then show ?thesis by (auto simp: dom_def)
qed

lemma metrics_newMasterStateCollector:
  "metrics (newMasterStateCollector aS gLV h labs) =
     fixed_metrics @
     (if labs = [] then []
      else [(SettableCounterVec ''slave'' ''attributes'' ''Attributes assigned to slaves''
               (labels @ normaliseLabelList labs) Map.empty,
             attributes_closure aS gLV (normaliseLabelList labs)
               (labels @ normaliseLabelList labs))])"
  by (simp add: newMasterStateCollector_def Let_def)

lemma total_newMasterStateCollector:
  "list_all total_entry (metrics (newMasterStateCollector aS gLV h labs))"
  by (simp add: metrics_newMasterStateCollector total_fixed_metrics total_attributes)

lemma Collect_same_registry:
  assumes sr: "same_registry (metrics mc) ms0" and tot: "list_all total_entry ms0"
    and fetch: "fetch (httpClient mc) ''/state'' \<lparr>Slaves = [], Frameworks = []\<rparr> = (err, st)"
  shows "\<exists>mc' ch. Collect fetch mc = Inr (mc', ch) \<and> httpClient mc' = httpClient mc \<and>
           same_registry (metrics mc') ms0 \<and> ch = map fst (metrics mc') \<and>
           list_all2 (\<lambda>e c'. snd e st (fst e) = Inr c') (metrics mc) ch"
proof -
  from Collect_loop_same_registry [OF sr tot, of st] obtain ms' ch where
    l: "Collect_loop st (metrics mc) = Inr (ms', ch)" "same_registry ms' ms0"
       "ch = map fst ms'" "list_all2 (\<lambda>e c'. snd e st (fst e) = Inr c') (metrics mc) ch"
    by blast
  let ?mc' = "mc\<lparr>metrics := ms'\<rparr>"
  have "Collect fetch mc = Inr (?mc', ch)"
    by (simp add: Collect_def fetch l(1))
  moreover have "httpClient ?mc' = httpClient mc" by simp
  moreover have "same_registry (metrics ?mc') ms0" using l(2) by simp
  moreover have "ch = map fst (metrics ?mc')" using l(3) by simp
  ultimately have "Collect fetch mc = Inr (?mc', ch) \<and> httpClient ?mc' = httpClient mc \<and>
           same_registry (metrics ?mc') ms0 \<and> ch = map fst (metrics ?mc') \<and>
           list_all2 (\<lambda>e c'. snd e st (fst e) = Inr c') (metrics mc) ch"
    using l(4) by (intro conjI)
  then show ?thesis by (intro exI)
qed

lemma scrapes_same_registry:
  assumes "same_registry (metrics mc) ms0" and tot: "list_all total_entry ms0"
  shows "\<exists>mc'. scrapes fs mc = Inr mc' \<and> httpClient mc' = httpClient mc \<and>
           same_registry (metrics mc') ms0"
  using assms(1)
proof (induction fs arbitrary: mc)
  case Nil
  then show ?case by simp
next
  case (Cons f fs)
  obtain err st where
    f: "f (httpClient mc) ''/state'' \<lparr>Slaves = [], Frameworks = []\<rparr> = (err, st)"
    by (cases "f (httpClient mc) ''/state'' \<lparr>Slaves = [], Frameworks = []\<rparr>")
  from Collect_same_registry [of mc ms0 f err st, OF Cons.prems tot f] obtain mc1 ch where
    c: "Collect f mc = Inr (mc1, ch)" "httpClient mc1 = httpClient mc"
       "same_registry (metrics mc1) ms0" by blast
  from Cons.IH [OF c(3)] obtain mc' where
    "scrapes fs mc1 = Inr mc'" "httpClient mc' = httpClient mc1" "same_registry (metrics mc') ms0"
    by blast
  with c show ?case by simp
qed

lemma scrapes_append:
  "scrapes (fs @ gs) mc = (case scrapes fs mc of Inl p \<Rightarrow> Inl p | Inr mc' \<Rightarrow> scrapes gs mc')"
  by (induction fs arbitrary: mc) (simp_all split: sum.splits prod.splits)

lemma scrapes_newMasterStateCollector:
  "\<exists>mc. scrapes fs (newMasterStateCollector aS gLV h labs) = Inr mc \<and> httpClient mc = h \<and>
      same_registry (metrics mc) (metrics (newMasterStateCollector aS gLV h labs))"
proof -
  let ?mc0 = "newMasterStateCollector aS gLV h labs"
  from scrapes_same_registry [of ?mc0 "metrics ?mc0" fs,
      OF same_registry_refl total_newMasterStateCollector]
  obtain mc where "scrapes fs (newMasterStateCollector aS gLV h labs) = Inr mc"
    "httpClient mc = httpClient (newMasterStateCollector aS gLV h labs)"
    "same_registry (metrics mc) (metrics (newMasterStateCollector aS gLV h labs))" by blast
  moreover have "httpClient (newMasterStateCollector aS gLV h labs) = h"
    by (simp add: newMasterStateCollector_def)
  ultimately show ?thesis by auto
qed

lemma emits_keyed_slaveGauge: "emits_keyed (GaugeVec opts labels ch, slaveGauge val)"
  by (simp add: emits_keyed_def keyed_def labels_def slaveGauge_GaugeVec dom_samples)

lemma emits_keyed_frameworkGauge: "emits_keyed (GaugeVec opts framework_labels ch, frameworkGauge val)"
  by (simp add: emits_keyed_def keyed_def framework_labels_def frameworkGauge_GaugeVec dom_samples)

lemma emits_keyed_fixed_metrics: "list_all emits_keyed fixed_metrics"
  by (simp add: fixed_metrics_def emits_keyed_slaveGauge emits_keyed_frameworkGauge)

lemma fixed_gauges_keyed:
  assumes "list_all2 (\<lambda>e c'. snd e st (fst e) = Inr c') fixed_metrics gs"
  shows "length gs = 19 \<and> (\<forall>c\<in>set gs. keyed st c)"
proof -
  have "length gs = length fixed_metrics" using assms by (simp add: list_all2_lengthD)
  then have len: "length gs = 19" by (simp add: length_fixed_metrics)
  have "keyed st c" if "c \<in> set gs" for c
  proof -
    from that obtain n where n: "n < length gs" "c = gs ! n" by (auto simp: in_set_conv_nth)
    with assms have "snd (fixed_metrics ! n) st (fst (fixed_metrics ! n)) = Inr c"
      by (simp add: list_all2_conv_all_nth)
    moreover have "emits_keyed (fixed_metrics ! n)"
      using emits_keyed_fixed_metrics n(1) \<open>length gs = length fixed_metrics\<close>
      by (simp add: list_all_length)
    ultimately show ?thesis by (simp add: emits_keyed_def)
  qed
  with len show ?thesis by blast
qed

lemma cycle_emits:
  assumes reach: "scrapes fs (newMasterStateCollector aS gLV h labs) = Inr mc"
    and fetch: "fetch h ''/state'' \<lparr>Slaves = [], Frameworks = []\<rparr> = (err, st)"
  shows "\<exists>mc' gs rest us vs.
      Collect fetch mc = Inr (mc', gs @ rest) \<and>
      metrics mc = us @ vs \<and>
      list_all2 (\<lambda>e c'. snd e st (fst e) = Inr c') (metrics mc) (gs @ rest) \<and>
      list_all2 (\<lambda>e c'. snd e st (fst e) = Inr c') fixed_metrics gs \<and>
      (labs = [] \<longrightarrow> vs = [] \<and> rest = []) \<and>
      (labs \<noteq> [] \<longrightarrow>
         (\<exists>m. vs = [(SettableCounterVec ''slave'' ''attributes'' ''Attributes assigned to slaves''
                      (labels @ normaliseLabelList labs) m,
                    attributes_closure aS gLV (normaliseLabelList labs) (labels @ normaliseLabelList labs))] \<and>
              rest = [SettableCounterVec ''slave'' ''attributes'' ''Attributes assigned to slaves''
                      (labels @ normaliseLabelList labs)
                      (fold (\<lambda>s m. m(gLV (slaveAttributesExport aS (normaliseLabelList labs) s)
                                         (labels @ normaliseLabelList labs) \<mapsto> Finite 1)) (Slaves st) m)])) \<and>
      scrapes (fs @ [fetch]) (newMasterStateCollector aS gLV h labs) = Inr mc'"
proof -
  let ?mc0 = "newMasterStateCollector aS gLV h labs"
  let ?extra = "if labs = [] then []
      else [(SettableCounterVec ''slave'' ''attributes'' ''Attributes assigned to slaves''
               (labels @ normaliseLabelList labs) Map.empty,
             attributes_closure aS gLV (normaliseLabelList labs)
               (labels @ normaliseLabelList labs))]"
  from scrapes_newMasterStateCollector [of fs aS gLV h labs] reach
  have hc: "httpClient mc = h" and sr: "same_registry (metrics mc) (metrics ?mc0)" by auto
  from fetch hc have fetch': "fetch (httpClient mc) ''/state'' \<lparr>Slaves = [], Frameworks = []\<rparr> = (err, st)"
    by simp
  from Collect_same_registry [of mc "metrics ?mc0" fetch err st, OF sr total_newMasterStateCollector fetch']
  obtain mc' ch where c: "Collect fetch mc = Inr (mc', ch)"
    "list_all2 (\<lambda>e c'. snd e st (fst e) = Inr c') (metrics mc) ch" by blast
  from sr have "same_registry (metrics mc) (fixed_metrics @ ?extra)"
    by (simp only: metrics_newMasterStateCollector)
  from same_registry_append [OF this] obtain us vs where
    split: "metrics mc = us @ vs" "same_registry us fixed_metrics" "same_registry vs ?extra" by blast
  from c(2) split(1) obtain gs rest where
    ch: "ch = gs @ rest" "list_all2 (\<lambda>e c'. snd e st (fst e) = Inr c') us gs"
        "list_all2 (\<lambda>e c'. snd e st (fst e) = Inr c') vs rest"
    by (auto simp: list_all2_append1)
  have fixed: "list_all2 (\<lambda>e c'. snd e st (fst e) = Inr c') fixed_metrics gs"
    using same_registry_memoryless [OF split(2) memoryless_fixed_metrics ch(2)] .
  have empty: "vs = [] \<and> rest = []" if "labs = []"
    using that split(3) ch(3) by (simp add: same_registry_def)
  have counter: "\<exists>m. vs = [(SettableCounterVec ''slave'' ''attributes'' ''Attributes assigned to slaves''
                      (labels @ normaliseLabelList labs) m,
                    attributes_closure aS gLV (normaliseLabelList labs) (labels @ normaliseLabelList labs))] \<and>
              rest = [SettableCounterVec ''slave'' ''attributes'' ''Attributes assigned to slaves''
                      (labels @ normaliseLabelList labs)
                      (fold (\<lambda>s m. m(gLV (slaveAttributesExport aS (normaliseLabelList labs) s)
                                         (labels @ normaliseLabelList labs) \<mapsto> Finite 1)) (Slaves st) m)]"
    if "labs \<noteq> []"
  proof -
    from that split(3) obtain e where vs: "vs = [e]"
      and e: "snd e = attributes_closure aS gLV (normaliseLabelList labs) (labels @ normaliseLabelList labs)"
         "\<exists>m. fst e = SettableCounterVec ''slave'' ''attributes'' ''Attributes assigned to slaves''
               (labels @ normaliseLabelList labs) m"
      by (auto simp: same_registry_def list_all2_Cons2)
    from e(2) obtain m where m: "fst e = SettableCounterVec ''slave'' ''attributes''
        ''Attributes assigned to slaves'' (labels @ normaliseLabelList labs) m" by blast
    from ch(3) vs obtain c' where rest: "rest = [c']" and run: "snd e st (fst e) = Inr c'"
      by (auto simp: list_all2_Cons1)
    from run have "c' = SettableCounterVec ''slave'' ''attributes'' ''Attributes assigned to slaves''
        (labels @ normaliseLabelList labs)
        (fold (\<lambda>s m. m(gLV (slaveAttributesExport aS (normaliseLabelList labs) s)
                           (labels @ normaliseLabelList labs) \<mapsto> Finite 1)) (Slaves st) m)"
      by (simp add: e(1) m attributes_closure_def attributes_loop_counter)
    moreover have "e = (fst e, snd e)" by simp
    ultimately show ?thesis using vs rest e(1) m by metis
  qed
  have next_state: "scrapes (fs @ [fetch]) ?mc0 = Inr mc'"
    by (simp add: scrapes_append reach c(1))
  from c(1) ch(1) split(1) c(2) fixed empty counter next_state show ?thesis
    by blast
qed

lemma Collect_reachable:
  fixes fetch :: "'h \<Rightarrow> string \<Rightarrow> state \<Rightarrow> 'e option \<times> state"
    and fs :: "('h \<Rightarrow> string \<Rightarrow> state \<Rightarrow> 'e option \<times> state) list"
  assumes reach: "scrapes fs (newMasterStateCollector aS gLV h labs) = Inr mc"
  shows "\<exists>mc' ch. Collect fetch mc = Inr (mc', ch)"
proof -
  obtain err st where fetch: "fetch h ''/state'' \<lparr>Slaves = [], Frameworks = []\<rparr> = (err, st)"
    by (cases "fetch h ''/state'' \<lparr>Slaves = [], Frameworks = []\<rparr>")
  from cycle_emits [of fs aS gLV h labs mc fetch err st, OF reach fetch] show ?thesis
    by (elim exE conjE) (intro exI, assumption)
qed

lemma cycle_fixed:
  assumes reach: "scrapes fs (newMasterStateCollector aS gLV h labs) = Inr mc"
    and fetch: "fetch h ''/state'' \<lparr>Slaves = [], Frameworks = []\<rparr> = (err, st)"
    and cycle: "Collect fetch mc = Inr (mc', ch)"
  shows "list_all2 (\<lambda>e c'. snd e st (fst e) = Inr c') fixed_metrics (take 19 ch)"
    and "list_all (\<lambda>c. \<not> is_GaugeVec c) (drop 19 ch)"
    and "list_all2 (\<lambda>e c'. snd e st (fst e) = Inr c') (metrics mc) ch"
    and "scrapes (fs @ [fetch]) (newMasterStateCollector aS gLV h labs) = Inr mc'"
proof -
  from cycle_emits [of fs aS gLV h labs mc fetch err st, OF reach fetch] obtain mc'' gs rest us vs where
    c: "Collect fetch mc = Inr (mc'', gs @ rest)"
    and all: "list_all2 (\<lambda>e c'. snd e st (fst e) = Inr c') (metrics mc) (gs @ rest)"
    and fixed: "list_all2 (\<lambda>e c'. snd e st (fst e) = Inr c') fixed_metrics gs"
    and none: "labs = [] \<longrightarrow> vs = [] \<and> rest = []"
    and some: "labs \<noteq> [] \<longrightarrow>
         (\<exists>m. vs = [(SettableCounterVec ''slave'' ''attributes'' ''Attributes assigned to slaves''
                      (labels @ normaliseLabelList labs) m,
                    attributes_closure aS gLV (normaliseLabelList labs) (labels @ normaliseLabelList labs))] \<and>
              rest = [SettableCounterVec ''slave'' ''attributes'' ''Attributes assigned to slaves''
                      (labels @ normaliseLabelList labs)
                      (fold (\<lambda>s m. m(gLV (slaveAttributesExport aS (normaliseLabelList labs) s)
                                         (labels @ normaliseLabelList labs) \<mapsto> Finite 1)) (Slaves st) m)])"
    and nxt: "scrapes (fs @ [fetch]) (newMasterStateCollector aS gLV h labs) = Inr mc''"
    by (elim exE conjE)
  from c cycle have eq: "mc' = mc''" "ch = gs @ rest" by simp_all
  from fixed have "length gs = 19"
    by (simp add: list_all2_lengthD [symmetric] length_fixed_metrics)
  then have td: "take 19 ch = gs" "drop 19 ch = rest" using eq(2) by simp_all
  show "list_all2 (\<lambda>e c'. snd e st (fst e) = Inr c') fixed_metrics (take 19 ch)"
    using fixed td(1) by simp
  show "list_all (\<lambda>c. \<not> is_GaugeVec c) (drop 19 ch)"
  proof (cases "labs = []")
    case True
    with none td(2) show ?thesis by simp
  next
    case False
    with some obtain m where "rest = [SettableCounterVec ''slave'' ''attributes''
        ''Attributes assigned to slaves'' (labels @ normaliseLabelList labs)
        (fold (\<lambda>s m. m(gLV (slaveAttributesExport aS (normaliseLabelList labs) s)
                           (labels @ normaliseLabelList labs) \<mapsto> Finite 1)) (Slaves st) m)]"
      by (elim impE exE conjE) simp_all
    with td(2) show ?thesis by simp
  qed
  show "list_all2 (\<lambda>e c'. snd e st (fst e) = Inr c') (metrics mc) ch"
    using all eq(2) by simp
  show "scrapes (fs @ [fetch]) (newMasterStateCollector aS gLV h labs) = Inr mc'"
    using nxt eq(1) by simp
qed

lemma fixed_gauges_values:
  assumes "list_all2 (\<lambda>e c'. snd e st (fst e) = Inr c') fixed_metrics gs"
  shows "gauge_samples ''slave'' ''cpus'' (gs @ rest) =
           Some (slave_samples (\<lambda>s. resources.CPUs (Total s)) st) \<and>
         gauge_samples ''slave'' ''cpus_used'' (gs @ rest) =
           Some (slave_samples (\<lambda>s. resources.CPUs (slave.Used s)) st) \<and>
         gauge_samples ''slave'' ''cpus_unreserved'' (gs @ rest) =
           Some (slave_samples (\<lambda>s. resources.CPUs (Unreserved s)) st) \<and>
         gauge_samples ''slave'' ''mem_bytes'' (gs @ rest) =
           Some (slave_samples (\<lambda>s. mul_1024 (resources.Mem (Total s))) st) \<and>
         gauge_samples ''slave'' ''mem_used_bytes'' (gs @ rest) =
           Some (slave_samples (\<lambda>s. mul_1024 (resources.Mem (slave.Used s))) st) \<and>
         gauge_samples ''slave'' ''mem_unreserved_bytes'' (gs @ rest) =
           Some (slave_samples (\<lambda>s. mul_1024 (resources.Mem (Unreserved s))) st) \<and>
         gauge_samples ''slave'' ''disk_bytes'' (gs @ rest) =
           Some (slave_samples (\<lambda>s. mul_1024 (resources.Disk (Total s))) st) \<and>
         gauge_samples ''slave'' ''disk_used_bytes'' (gs @ rest) =
           Some (slave_samples (\<lambda>s. mul_1024 (resources.Disk (slave.Used s))) st) \<and>
         gauge_samples ''slave'' ''disk_unreserved_bytes'' (gs @ rest) =
           Some (slave_samples (\<lambda>s. mul_1024 (resources.Disk (Unreserved s))) st) \<and>
         gauge_samples ''framework'' ''cpu_used'' (gs @ rest) =
           Some (framework_samples (\<lambda>f. framework_resources.CPUs (framework.Used f)) st) \<and>
         gauge_samples ''framework'' ''disk_used'' (gs @ rest) =
           Some (framework_samples (\<lambda>f. framework_resources.Disk (framework.Used f)) st) \<and>
         gauge_samples ''framework'' ''mem_used'' (gs @ rest) =
           Some (framework_samples (\<lambda>f. framework_resources.Mem (framework.Used f)) st) \<and>
         gauge_samples ''framework'' ''cpu_offered'' (gs @ rest) =
           Some (framework_samples (\<lambda>f. framework_resources.CPUs (Offered f)) st) \<and>
         gauge_samples ''framework'' ''mem_offered'' (gs @ rest) =
           Some (framework_samples (\<lambda>f. framework_resources.Mem (Offered f)) st) \<and>
         gauge_samples ''framework'' ''disk_offered'' (gs @ rest) =
           Some (framework_samples (\<lambda>f. framework_resources.Disk (Offered f)) st) \<and>
         (\<forall>s. Slaves st = [s] \<and> resources.Mem (Total s) = Finite 2 \<longrightarrow>
            map_option (\<lambda>m. m [PID s, Hostname s])
              (gauge_samples ''slave'' ''mem_bytes'' (gs @ rest)) = Some (Some (Finite 2048)))"
  using assms unfolding fixed_metrics_def
  by (clarsimp simp: list_all2_Cons1 slaveGauge_GaugeVec frameworkGauge_GaugeVec labels_def
      framework_labels_def MaxFloat64_def)

lemma fixed_gauges_more:
  assumes "list_all2 (\<lambda>e c'. snd e st (fst e) = Inr c') fixed_metrics gs"
  shows "gauge_samples ''slave'' ''ports'' (gs @ rest) =
           Some (slave_samples (\<lambda>s. float64_of_uint64 (size_ranges (Ports (Total s)))) st) \<and>
         gauge_samples ''framework'' ''active'' (gs @ rest) =
           Some (framework_samples (\<lambda>f. if Active f then Finite 1 else Finite 0) st)"
  using assms unfolding fixed_metrics_def
  by (clarsimp simp: list_all2_Cons1 slaveGauge_GaugeVec frameworkGauge_GaugeVec labels_def
      framework_labels_def)

lemma cycle_emitted_is_state:
  fixes fetch :: "'h \<Rightarrow> string \<Rightarrow> state \<Rightarrow> 'e option \<times> state"
    and fs :: "('h \<Rightarrow> string \<Rightarrow> state \<Rightarrow> 'e option \<times> state) list"
  assumes reach: "scrapes fs (newMasterStateCollector aS gLV h labs) = Inr mc"
    and cycle: "Collect fetch mc = Inr (mc', ch)"
  shows "ch = map fst (metrics mc')"
proof -
  let ?mc0 = "newMasterStateCollector aS gLV h labs"
  obtain err st where
    fetch: "fetch (httpClient mc) ''/state'' \<lparr>Slaves = [], Frameworks = []\<rparr> = (err, st)"
    by (cases "fetch (httpClient mc) ''/state'' \<lparr>Slaves = [], Frameworks = []\<rparr>")
  from scrapes_newMasterStateCollector [of fs aS gLV h labs] reach
  have sr: "same_registry (metrics mc) (metrics ?mc0)" by auto
  from Collect_same_registry [of mc "metrics ?mc0" fetch err st, OF sr total_newMasterStateCollector fetch]
  obtain mc'' ch'' where c: "Collect fetch mc = Inr (mc'', ch'')" "ch'' = map fst (metrics mc'')"
    by blast
  from c(1) cycle have "mc'' = mc'" "ch'' = ch" by simp_all
  with c(2) show ?thesis by simp
qed

lemma cycle_counter:
  fixes fetch :: "'h \<Rightarrow> string \<Rightarrow> state \<Rightarrow> 'e option \<times> state"
    and fs :: "('h \<Rightarrow> string \<Rightarrow> state \<Rightarrow> 'e option \<times> state) list"
  assumes reach: "scrapes fs (newMasterStateCollector aS gLV h labs) = Inr mc"
    and fetch: "fetch h ''/state'' \<lparr>Slaves = [], Frameworks = []\<rparr> = (err, st)"
    and cycle: "Collect fetch mc = Inr (mc', ch)"
    and labs: "labs \<noteq> []"
  shows "\<exists>m. drop 19 (map fst (metrics mc)) =
               [SettableCounterVec ''slave'' ''attributes'' ''Attributes assigned to slaves''
                  (labels @ normaliseLabelList labs) m] \<and>
             drop 19 ch =
               [SettableCounterVec ''slave'' ''attributes'' ''Attributes assigned to slaves''
                  (labels @ normaliseLabelList labs)
                  (fold (\<lambda>s m. m(gLV (slaveAttributesExport aS (normaliseLabelList labs) s)
                                     (labels @ normaliseLabelList labs) \<mapsto> Finite 1)) (Slaves st) m)]"
proof -
  from cycle_emits [of fs aS gLV h labs mc fetch err st, OF reach fetch]
  obtain mc'' gs rest us vs where
    c: "Collect fetch mc = Inr (mc'', gs @ rest)"
    and split: "metrics mc = us @ vs"
    and all: "list_all2 (\<lambda>e c'. snd e st (fst e) = Inr c') (metrics mc) (gs @ rest)"
    and fixed: "list_all2 (\<lambda>e c'. snd e st (fst e) = Inr c') fixed_metrics gs"
    and none: "labs = [] \<longrightarrow> vs = [] \<and> rest = []"
    and some: "labs \<noteq> [] \<longrightarrow>
         (\<exists>m. vs = [(SettableCounterVec ''slave'' ''attributes'' ''Attributes assigned to slaves''
                      (labels @ normaliseLabelList labs) m,
                    attributes_closure aS gLV (normaliseLabelList labs) (labels @ normaliseLabelList labs))] \<and>
              rest = [SettableCounterVec ''slave'' ''attributes'' ''Attributes assigned to slaves''
                      (labels @ normaliseLabelList labs)
                      (fold (\<lambda>s m. m(gLV (slaveAttributesExport aS (normaliseLabelList labs) s)
                                         (labels @ normaliseLabelList labs) \<mapsto> Finite 1)) (Slaves st) m)])"
    and nxt: "scrapes (fs @ [fetch]) (newMasterStateCollector aS gLV h labs) = Inr mc''"
    by (elim exE conjE)
  from c cycle have ch: "ch = gs @ rest" by simp
  from fixed have lg: "length gs = 19"
    by (simp add: list_all2_lengthD [symmetric] length_fixed_metrics)
  from some labs obtain m where
    vs: "vs = [(SettableCounterVec ''slave'' ''attributes'' ''Attributes assigned to slaves''
                      (labels @ normaliseLabelList labs) m,
                    attributes_closure aS gLV (normaliseLabelList labs) (labels @ normaliseLabelList labs))]"
    and rest: "rest = [SettableCounterVec ''slave'' ''attributes'' ''Attributes assigned to slaves''
                      (labels @ normaliseLabelList labs)
                      (fold (\<lambda>s m. m(gLV (slaveAttributesExport aS (normaliseLabelList labs) s)
                                         (labels @ normaliseLabelList labs) \<mapsto> Finite 1)) (Slaves st) m)]"
    by (elim impE exE conjE) simp_all
  from all have "length (metrics mc) = length (gs @ rest)"
    by (rule list_all2_lengthD)
  with split have "length (us @ vs) = length (gs @ rest)" by simp
  with vs rest lg have lu: "length us = 19" by simp
  have 1: "drop 19 (map fst (metrics mc)) =
               [SettableCounterVec ''slave'' ''attributes'' ''Attributes assigned to slaves''
                  (labels @ normaliseLabelList labs) m]"
    using split lu vs by simp
  have 2: "drop 19 ch = rest" using ch lg by simp
  from 1 2 rest show ?thesis by (intro exI conjI) simp_all
qed

lemma fold_set_one:
  "fold (\<lambda>x m. m(key x \<mapsto> Finite 1)) xs m k =
     (if k \<in> key ` set xs then Some (Finite 1) else m k)"
proof -
  have "find (\<lambda>x. key x = k) (rev xs) = None \<longleftrightarrow> k \<notin> key ` set xs"
    by (auto simp: find_None_iff)
  then show ?thesis
    by (auto simp: fold_upd_lookup [where val = "\<lambda>x. Finite 1"] split: option.splits)
qed

lemma fixed_gauges_desc:
  assumes "list_all2 (\<lambda>e c'. snd e st (fst e) = Inr c') fixed_metrics gs"
  shows "map (\<lambda>c. with_children c Map.empty) gs = map fst fixed_metrics"
proof (rule nth_equalityI)
  show len: "length (map (\<lambda>c. with_children c Map.empty) gs) = length (map fst fixed_metrics)"
    using assms by (simp add: list_all2_lengthD)
  fix n assume "n < length (map (\<lambda>c. with_children c Map.empty) gs)"
  then have n: "n < length gs" "n < length fixed_metrics" using len by simp_all
  let ?e = "fixed_metrics ! n"
  from assms n have run: "snd ?e st (fst ?e) = Inr (gs ! n)"
    by (simp add: list_all2_conv_all_nth)
  have "total_entry ?e" using total_fixed_metrics n(2) by (simp add: list_all_length)
  then obtain ch' where "snd ?e st (with_children (fst ?e) (children (fst ?e))) =
      Inr (with_children (fst ?e) ch')"
    unfolding total_entry_def by blast
  with run have "gs ! n = with_children (fst ?e) ch'"
    by (simp add: with_children_children)
  moreover have "\<forall>e\<in>set fixed_metrics. with_children (fst e) Map.empty = fst e"
    by (simp add: fixed_metrics_def)
  then have "with_children (fst ?e) Map.empty = fst ?e" using n(2) by simp
  ultimately show "map (\<lambda>c. with_children c Map.empty) gs ! n = map fst fixed_metrics ! n"
    using n by (simp add: with_children_idem)
qed

lemma keyed_card:
  assumes "keyed st c" and "c = GaugeVec opts ls m"
  shows "(ls = [''slave'', ''hostname''] \<and>
            dom m = (\<lambda>s. [PID s, Hostname s]) ` set (Slaves st) \<and>
            card (dom m) = length (remdups (map (\<lambda>s. [PID s, Hostname s]) (Slaves st)))) \<or>
         (ls = [''framework''] \<and>
            dom m = (\<lambda>f. [framework.Name f]) ` set (Frameworks st) \<and>
            card (dom m) = length (remdups (map (\<lambda>f. [framework.Name f]) (Frameworks st))))"
proof -
  have card: "card (f ` set xs) = length (remdups (map f xs))" for f :: "'a \<Rightarrow> string list" and xs
    by (metis length_remdups_card_conv set_map)
  from assms show ?thesis
    unfolding keyed_def by (auto simp: card)
qed

lemma keyed_is_GaugeVec: "keyed st c \<Longrightarrow> is_GaugeVec c"
  by (auto simp: keyed_def)

lemma fixed_gauges_are_gauges:
  assumes "list_all2 (\<lambda>e c'. snd e st (fst e) = Inr c') fixed_metrics gs"
  shows "list_all is_GaugeVec gs"
  using fixed_gauges_keyed [OF assms] by (auto simp: list_all_iff keyed_is_GaugeVec)

lemma cycle_gauges_keyed:
  fixes fetch :: "'h \<Rightarrow> string \<Rightarrow> state \<Rightarrow> 'e option \<times> state"
    and fs :: "('h \<Rightarrow> string \<Rightarrow> state \<Rightarrow> 'e option \<times> state) list"
  assumes reach: "scrapes fs (newMasterStateCollector aS gLV h labs) = Inr mc"
    and fetch: "fetch h ''/state'' \<lparr>Slaves = [], Frameworks = []\<rparr> = (err, st)"
    and cycle: "Collect fetch mc = Inr (mc', ch)"
  shows "length (take 19 ch) = 19" and "list_all is_GaugeVec (take 19 ch)"
    and "\<forall>c\<in>set ch. is_GaugeVec c \<longrightarrow> keyed st c"
proof -
  note fixed = cycle_fixed(1) [OF reach fetch cycle]
  note rest = cycle_fixed(2) [OF reach fetch cycle]
  from fixed_gauges_keyed [OF fixed] show "length (take 19 ch) = 19" by (rule conjunct1)
  show "list_all is_GaugeVec (take 19 ch)" by (rule fixed_gauges_are_gauges [OF fixed])
  show "\<forall>c\<in>set ch. is_GaugeVec c \<longrightarrow> keyed st c"
  proof (intro ballI impI)
    fix c assume c: "c \<in> set ch" and g: "is_GaugeVec c"
    from c have "c \<in> set (take 19 ch) \<or> c \<in> set (drop 19 ch)"
      by (metis Un_iff append_take_drop_id set_append)
    moreover have "c \<notin> set (drop 19 ch)"
      using rest g by (auto simp: list_all_iff)
    ultimately have "c \<in> set (take 19 ch)" by simp
    with fixed_gauges_keyed [OF fixed] show "keyed st c" by simp
  qed
qed

lemma keyed_absent:
  fixes a :: slave and f :: framework
  assumes "keyed st c" and "c = GaugeVec opts ls m"
  shows "[PID a, Hostname a] \<notin> (\<lambda>s. [PID s, Hostname s]) ` set (Slaves st) \<Longrightarrow>
           m [PID a, Hostname a] = None"
    and "[framework.Name f] \<notin> (\<lambda>f. [framework.Name f]) ` set (Frameworks st) \<Longrightarrow>
           m [framework.Name f] = None"
proof -
  from assms have d: "dom m = (\<lambda>s. [PID s, Hostname s]) ` set (Slaves st) \<or>
      dom m = (\<lambda>f. [framework.Name f]) ` set (Frameworks st)"
    by (auto simp: keyed_def)
  have 1: "[PID a, Hostname a] \<notin> (\<lambda>f. [framework.Name f]) ` set (Frameworks st)" by auto
  have 2: "[framework.Name f] \<notin> (\<lambda>s. [PID s, Hostname s]) ` set (Slaves st)" by auto
  show "m [PID a, Hostname a] = None"
    if "[PID a, Hostname a] \<notin> (\<lambda>s. [PID s, Hostname s]) ` set (Slaves st)"
  proof -
    from d 1 that have "[PID a, Hostname a] \<notin> dom m" by blast
    then show ?thesis by (simp add: domIff)
  qed
  show "m [framework.Name f] = None"
    if "[framework.Name f] \<notin> (\<lambda>f. [framework.Name f]) ` set (Frameworks st)"
  proof -
    from d 2 that have "[framework.Name f] \<notin> dom m" by blast
    then show ?thesis by (simp add: domIff)
  qed
qed


lemma fold_default_labels:
  "fold (\<lambda>label m. m(label \<mapsto> [])) nls m l = (if l \<in> set nls then Some [] else m l)"
  by (induction nls arbitrary: m) auto

lemma fold_attributes:
  "fold (\<lambda>(key, value) m.
           if stringInSlice (normaliseLabel key) nls then
             (case aS value of Some attribute \<Rightarrow> m(normaliseLabel key \<mapsto> attribute) | None \<Rightarrow> m)
           else m) attrs m l =
     (case find (\<lambda>(k, v). normaliseLabel k = l \<and> l \<in> set nls \<and> aS v \<noteq> None) (rev attrs) of
        None \<Rightarrow> m l
      | Some (k, v) \<Rightarrow> aS v)"
proof (induction attrs arbitrary: m)
  case Nil
  show ?case by simp
next
  case (Cons kv attrs)
  obtain k v where kv: "kv = (k, v)" by (cases kv)
  let ?step = "\<lambda>(key, value) m.
           if stringInSlice (normaliseLabel key) nls then
             (case aS value of Some attribute \<Rightarrow> m(normaliseLabel key \<mapsto> attribute) | None \<Rightarrow> m)
           else m"
  let ?P = "\<lambda>(k, v). normaliseLabel k = l \<and> l \<in> set nls \<and> aS v \<noteq> None"
  have "fold ?step (kv # attrs) m l = fold ?step attrs (?step kv m) l" by simp
  also have "\<dots> = (case find ?P (rev attrs) of None \<Rightarrow> ?step kv m l | Some (k, v) \<Rightarrow> aS v)"
    by (rule Cons.IH)
  also have "\<dots> = (case find ?P (rev (kv # attrs)) of None \<Rightarrow> m l | Some (k, v) \<Rightarrow> aS v)"
    by (auto simp: kv find_app stringInSlice_def split: option.splits)
  finally show ?case .
qed

lemma slaveAttributesExport_lookup:
  "slaveAttributesExport aS nls s l =
     (case find (\<lambda>(k, v). normaliseLabel k = l \<and> l \<in> set nls \<and> aS v \<noteq> None)
             (rev (Attributes s)) of
        None \<Rightarrow> (if l \<in> set nls then Some [] else if l = ''slave'' then Some (PID s) else None)
      | Some (k, v) \<Rightarrow> aS v)"
proof -
  have m1: "fold (\<lambda>label m. m(label \<mapsto> [])) nls [''slave'' \<mapsto> PID s] l =
      (if l \<in> set nls then Some [] else if l = ''slave'' then Some (PID s) else None)"
    by (simp add: fold_default_labels)
  show ?thesis
    unfolding slaveAttributesExport_def Let_def fold_attributes m1 by (rule refl)
qed

lemma scenario_key:
  "getLabelValuesFromMap (slaveAttributesExport quoted [''rack''] (hd (Slaves scenario)))
     [''slave'', ''hostname'', ''rack''] = [''s1'', [], ''r1'']"
  by (simp add: getLabelValuesFromMap_def slaveAttributesExport_lookup scenario_def quoted_def
      normaliseLabel_def validLabelChar_def)

lemma map_filter_app: "List.map_filter f (xs @ ys) = List.map_filter f xs @ List.map_filter f ys"
  by (simp add: map_filter_def)

lemma map_filter_Nil_iff: "List.map_filter f xs = [] \<longleftrightarrow> (\<forall>x\<in>set xs. f x = None)"
  by (auto simp: map_filter_def filter_empty_conv)

lemma find_last_string:
  "(case find (\<lambda>(k, v). N k = l \<and> aS v \<noteq> None) (rev xs) of
      None \<Rightarrow> Some [] | Some (k, v) \<Rightarrow> aS v) =
   Some (if List.map_filter (\<lambda>(k, v). if N k = l then aS v else None) xs = [] then []
         else last (List.map_filter (\<lambda>(k, v). if N k = l then aS v else None) xs))"
proof (induction xs rule: rev_induct)
  case Nil
  show ?case by (simp add: map_filter_def)
next
  case (snoc x xs)
  obtain k v where x: "x = (k, v)" by (cases x)
  show ?case
  proof (cases "N k = l \<and> aS v \<noteq> None")
    case True
    then obtain a where a: "aS v = Some a" by auto
    with True show ?thesis by (simp add: x map_filter_app map_filter_def)
  next
    case False
    then have "List.map_filter (\<lambda>(k, v). if N k = l then aS v else None) [x] = []"
      by (auto simp: x map_filter_def)
    with False snoc show ?thesis by (simp add: x map_filter_app)
  qed
qed

lemma slaveAttributesExport_listed:
  assumes "l \<in> set nls"
  shows "slaveAttributesExport aS nls s l = Some (attribute_value aS s l)"
proof -
  have "slaveAttributesExport aS nls s l =
      (case find (\<lambda>(k, v). normaliseLabel k = l \<and> aS v \<noteq> None) (rev (Attributes s)) of
         None \<Rightarrow> Some [] | Some (k, v) \<Rightarrow> aS v)"
    using assms by (simp add: slaveAttributesExport_lookup)
  then show ?thesis
    by (simp only: find_last_string attribute_value_def attribute_strings_def)
qed

lemma slaveAttributesExport_unlisted:
  assumes "l \<notin> set nls"
  shows "slaveAttributesExport aS nls s l = (if l = ''slave'' then Some (PID s) else None)"
proof -
  have "find (\<lambda>(k, v). normaliseLabel k = l \<and> l \<in> set nls \<and> aS v \<noteq> None)
      (rev (Attributes s)) = None"
    using assms by (auto simp: find_None_iff)
  with assms show ?thesis by (simp add: slaveAttributesExport_lookup)
qed

lemma label_of_node:
  "(case slaveAttributesExport aS nls s l of None \<Rightarrow> [] | Some v \<Rightarrow> v) =
     (if l \<in> set nls then attribute_value aS s l else if l = ''slave'' then PID s else [])"
  by (simp add: slaveAttributesExport_listed slaveAttributesExport_unlisted)

lemma record_of_node:
  "getLabelValuesFromMap (slaveAttributesExport aS nls s) (labels @ nls) =
     [if ''slave'' \<in> set nls then attribute_value aS s ''slave'' else PID s,
      if ''hostname'' \<in> set nls then attribute_value aS s ''hostname'' else []] @
     map (attribute_value aS s) nls"
  by (simp add: getLabelValuesFromMap_def label_of_node labels_def)

lemma attribute_value_default:
  assumes "\<forall>(k, v)\<in>set (Attributes s). normaliseLabel k = l \<longrightarrow> aS v = None"
  shows "attribute_value aS s l = []"
proof -
  have "attribute_strings aS s l = []"
    unfolding attribute_strings_def map_filter_Nil_iff using assms by auto
  then show ?thesis by (simp add: attribute_value_def)
qed

lemma attribute_value_last:
  assumes "Attributes s = pre @ (k, v) # post" and "normaliseLabel k = l" and "aS v = Some x"
    and "\<forall>(k', v')\<in>set post. normaliseLabel k' = l \<longrightarrow> aS v' = None"
  shows "attribute_value aS s l = x"
proof -
  let ?f = "\<lambda>(key, value). if normaliseLabel key = l then aS value else None"
  have "List.map_filter ?f post = []"
    unfolding map_filter_Nil_iff using assms(4) by auto
  moreover have "List.map_filter ?f [(k, v)] = [x]"
    using assms(2,3) by (simp add: map_filter_def)
  ultimately have "attribute_strings aS s l = List.map_filter ?f pre @ [x]"
    unfolding attribute_strings_def assms(1)
    using map_filter_app [of ?f pre "(k, v) # post"] map_filter_app [of ?f "[(k, v)]" post]
    by simp
  then show ?thesis by (simp add: attribute_value_def)
qed

lemma dom_fold_set_one:
  "dom (fold (\<lambda>x m. m(key x \<mapsto> Finite 1)) xs m) = dom m \<union> key ` set xs"
  by (auto simp: fold_set_one dom_def)

lemma card_image_remdups:
  fixes f :: "'a \<Rightarrow> string list"
  shows "card (f ` set xs) = length (remdups (map f xs))"
  by (metis length_remdups_card_conv set_map)

lemma distinct_records:
  assumes "distinct (map PID ss)" and "\<And>s. hd (key s) = PID s"
  shows "distinct (map key ss)"
proof -
  from assms(1) have d: "distinct ss" and i: "inj_on PID (set ss)"
    by (simp_all add: distinct_map)
  have "inj_on key (set ss)"
  proof (rule inj_onI)
    fix s t assume "s \<in> set ss" "t \<in> set ss" "key s = key t"
    then have "PID s = PID t" using assms(2) by metis
    with i \<open>s \<in> set ss\<close> \<open>t \<in> set ss\<close> show "s = t" by (auto dest: inj_onD)
  qed
  with d show ?thesis by (simp add: distinct_map)
qed

text \<open>
  Claim C4, as the code has it. The claim has a node memory gauge hold the snapshot's KiB
  value multiplied by 1024. The product is that of \<^verbatim>\<open>float64\<close>, which overflows: on a
  snapshot whose node has \<open>2^1023\<close> KiB of total memory the cycle leaves \<^verbatim>\<open>+Inf\<close> in
  \<^verbatim>\<open>mem_bytes\<close>, not \<open>2^1023 * 1024\<close>.
\<close>

theorem gauge_values_unit_conversion_counterexample:
  "Collect (answers huge) (newMasterStateCollector quoted getLabelValuesFromMap () []) =
     Inr (projr (Collect (answers huge)
                   (newMasterStateCollector quoted getLabelValuesFromMap () []))) \<and>
   map_option (\<lambda>m. m [''s3'', ''h3''])
     (gauge_samples ''slave'' ''mem_bytes''
        (snd (projr (Collect (answers huge)
                       (newMasterStateCollector quoted getLabelValuesFromMap () []))))) =
     Some (Some PosInf) \<and>
   map (\<lambda>s. resources.Mem (Total s)) (Slaves huge) = [Finite (2 ^ 1023)] \<and>
   PosInf \<noteq> Finite (2 ^ 1023 * 1024)"
proof -
  let ?mc0 = "newMasterStateCollector quoted getLabelValuesFromMap () []"
  have reach: "scrapes [] ?mc0 = Inr ?mc0" by simp
  obtain mc' ch where c: "Collect (answers huge) ?mc0 = Inr (mc', ch)"
    using Collect_reachable [OF reach, of "answers huge"] by blast
  have fetch: "answers huge () ''/state'' \<lparr>Slaves = [], Frameworks = []\<rparr> = (None, huge)"
    by (simp add: answers_def)
  have fixed: "list_all2 (\<lambda>e c'. snd e huge (fst e) = Inr c') fixed_metrics (take 19 ch)"
    by (rule cycle_fixed(1) [OF reach fetch c])
  from fixed_gauges_values [OF fixed, of "drop 19 ch", unfolded append_take_drop_id]
  have "gauge_samples ''slave'' ''mem_bytes'' ch =
      Some (slave_samples (\<lambda>s. mul_1024 (resources.Mem (Total s))) huge)"
    by (elim conjE)
  then have "map_option (\<lambda>m. m [''s3'', ''h3'']) (gauge_samples ''slave'' ''mem_bytes'' ch) =
      Some (Some PosInf)"
    by (simp add: huge_def MaxFloat64_def)
  moreover have "map (\<lambda>s. resources.Mem (Total s)) (Slaves huge) = [Finite (2 ^ 1023)]"
    by (simp add: huge_def)
  ultimately show ?thesis using c by simp
qed

text \<open>
  Claim C4, amended: after any sequence of scrapes, a collection cycle on a snapshot leaves
  in each node memory and disk gauge, for each node, the \<^verbatim>\<open>float64\<close> product of the
  snapshot's KiB value with 1024: the KiB value multiplied by 1024 whenever that is at most
  \<open>MaxFloat64\<close> in magnitude (a node with \<^verbatim>\<open>total.mem == 2\<close> yields 2048), and the
  infinity of its sign beyond. It leaves in each node cpu gauge the cpu value as it is,
  and in the framework used and offered cpu, memory and disk gauges the values as they
  are. The sample for a tuple of label values is that of the last node (framework) of the
  snapshot carrying the tuple.
\<close>

theorem gauge_values_unit_conversion:
  fixes fetch :: "'h \<Rightarrow> string \<Rightarrow> state \<Rightarrow> 'e option \<times> state" and h :: 'h
    and fs :: "('h \<Rightarrow> string \<Rightarrow> state \<Rightarrow> 'e option \<times> state) list"
  defines "st \<equiv> snd (fetch h ''/state'' \<lparr>Slaves = [], Frameworks = []\<rparr>)"
  shows "\<exists>mc mc' ch.
     scrapes fs (newMasterStateCollector aS gLV h labs) = Inr mc \<and>
     Collect fetch mc = Inr (mc', ch) \<and>
     (\<forall>r. \<bar>r * 1024\<bar> \<le> MaxFloat64 \<longrightarrow> mul_1024 (Finite r) = Finite (r * 1024)) \<and>
     (\<forall>r. MaxFloat64 < r * 1024 \<longrightarrow> mul_1024 (Finite r) = PosInf) \<and>
     (\<forall>r. r * 1024 < - MaxFloat64 \<longrightarrow> mul_1024 (Finite r) = NegInf) \<and>
     gauge_samples ''slave'' ''cpus'' ch =
       Some (slave_samples (\<lambda>s. resources.CPUs (Total s)) st) \<and>
     gauge_samples ''slave'' ''cpus_used'' ch =
       Some (slave_samples (\<lambda>s. resources.CPUs (slave.Used s)) st) \<and>
     gauge_samples ''slave'' ''cpus_unreserved'' ch =
       Some (slave_samples (\<lambda>s. resources.CPUs (Unreserved s)) st) \<and>
     gauge_samples ''slave'' ''mem_bytes'' ch =
       Some (slave_samples (\<lambda>s. mul_1024 (resources.Mem (Total s))) st) \<and>
     gauge_samples ''slave'' ''mem_used_bytes'' ch =
       Some (slave_samples (\<lambda>s. mul_1024 (resources.Mem (slave.Used s))) st) \<and>
     gauge_samples ''slave'' ''mem_unreserved_bytes'' ch =
       Some (slave_samples (\<lambda>s. mul_1024 (resources.Mem (Unreserved s))) st) \<and>
     gauge_samples ''slave'' ''disk_bytes'' ch =
       Some (slave_samples (\<lambda>s. mul_1024 (resources.Disk (Total s))) st) \<and>
     gauge_samples ''slave'' ''disk_used_bytes'' ch =
       Some (slave_samples (\<lambda>s. mul_1024 (resources.Disk (slave.Used s))) st) \<and>
     gauge_samples ''slave'' ''disk_unreserved_bytes'' ch =
       Some (slave_samples (\<lambda>s. mul_1024 (resources.Disk (Unreserved s))) st) \<and>
     gauge_samples ''framework'' ''cpu_used'' ch =
       Some (framework_samples (\<lambda>f. framework_resources.CPUs (framework.Used f)) st) \<and>
     gauge_samples ''framework'' ''disk_used'' ch =
       Some (framework_samples (\<lambda>f. framework_resources.Disk (framework.Used f)) st) \<and>
     gauge_samples ''framework'' ''mem_used'' ch =
       Some (framework_samples (\<lambda>f. framework_resources.Mem (framework.Used f)) st) \<and>
     gauge_samples ''framework'' ''cpu_offered'' ch =
       Some (framework_samples (\<lambda>f. framework_resources.CPUs (Offered f)) st) \<and>
     gauge_samples ''framework'' ''mem_offered'' ch =
       Some (framework_samples (\<lambda>f. framework_resources.Mem (Offered f)) st) \<and>
     gauge_samples ''framework'' ''disk_offered'' ch =
       Some (framework_samples (\<lambda>f. framework_resources.Disk (Offered f)) st) \<and>
     (\<forall>s. Slaves st = [s] \<and> resources.Mem (Total s) = Finite 2 \<longrightarrow>
        map_option (\<lambda>m. m [PID s, Hostname s]) (gauge_samples ''slave'' ''mem_bytes'' ch) =
          Some (Some (Finite 2048)))"
proof -
  obtain mc where mc: "scrapes fs (newMasterStateCollector aS gLV h labs) = Inr mc"
    using scrapes_newMasterStateCollector [of fs aS gLV h labs] by blast
  obtain err where fetch: "fetch h ''/state'' \<lparr>Slaves = [], Frameworks = []\<rparr> = (err, st)"
    unfolding st_def by (cases "fetch h ''/state'' \<lparr>Slaves = [], Frameworks = []\<rparr>") simp
  obtain mc' ch where c: "Collect fetch mc = Inr (mc', ch)"
    using Collect_reachable [OF mc, of fetch] by blast
  have fixed: "list_all2 (\<lambda>e c'. snd e st (fst e) = Inr c') fixed_metrics (take 19 ch)"
    by (rule cycle_fixed(1) [OF mc fetch c])
  have exact: "\<forall>r. \<bar>r * 1024\<bar> \<le> MaxFloat64 \<longrightarrow> mul_1024 (Finite r) = Finite (r * 1024)"
    by auto
  have over: "\<forall>r. MaxFloat64 < r * 1024 \<longrightarrow> mul_1024 (Finite r) = PosInf"
    by simp
  have under: "\<forall>r. r * 1024 < - MaxFloat64 \<longrightarrow> mul_1024 (Finite r) = NegInf"
    by (auto simp: MaxFloat64_def)
  from conjI [OF mc conjI [OF c conjI [OF exact conjI [OF over conjI [OF under
    fixed_gauges_values [OF fixed, of "drop 19 ch", unfolded append_take_drop_id]]]]]]
  show ?thesis by (intro exI)
qed

theorem gauge_values_unit_conversion_witness:
  "\<exists>mc' ch.
     Collect (answers two_kib) (newMasterStateCollector quoted getLabelValuesFromMap () []) =
       Inr (mc', ch) \<and>
     map_option (\<lambda>m. m [''s2'', ''h2'']) (gauge_samples ''slave'' ''mem_bytes'' ch) =
       Some (Some (Finite 2048)) \<and>
     map_option (\<lambda>m. m [''s2'', ''h2'']) (gauge_samples ''slave'' ''cpus'' ch) =
       Some (Some (Finite 1)) \<and>
     mul_1024 (Finite 2) = Finite 2048 \<and>
     mul_1024 (Finite (2 ^ 1023)) = PosInf \<and>
     mul_1024 (Finite (- (2 ^ 1023))) = NegInf"
  using gauge_values_unit_conversion
    [of "[]" quoted getLabelValuesFromMap "()" "[]" "answers two_kib"]
  apply (elim exE conjE)
  subgoal premises p for mc mc' ch
  proof -
    from p(1) have mc: "mc = newMasterStateCollector quoted getLabelValuesFromMap () []"
      by simp
    from p(3) [rule_format, of 2] have exact: "mul_1024 (Finite 2) = Finite 2048"
      by (simp add: MaxFloat64_def)
    from p(4) [rule_format, of "2 ^ 1023"] have over: "mul_1024 (Finite (2 ^ 1023)) = PosInf"
      by (simp add: MaxFloat64_def)
    from p(5) [rule_format, of "- (2 ^ 1023)"]
    have under: "mul_1024 (Finite (- (2 ^ 1023))) = NegInf"
      by (simp add: MaxFloat64_def)
    have sl: "Slaves two_kib = [hd (Slaves two_kib)]"
      and id: "PID (hd (Slaves two_kib)) = ''s2''" "Hostname (hd (Slaves two_kib)) = ''h2''"
      and mem: "resources.Mem (Total (hd (Slaves two_kib))) = Finite 2"
      by (simp_all add: two_kib_def)
    from p(21) [rule_format, of "hd (Slaves two_kib)"] sl mem id
    have kib: "map_option (\<lambda>m. m [''s2'', ''h2'']) (gauge_samples ''slave'' ''mem_bytes'' ch) =
        Some (Some (Finite 2048))"
      by (simp add: answers_def)
    from p(6) have cpu: "map_option (\<lambda>m. m [''s2'', ''h2'']) (gauge_samples ''slave'' ''cpus'' ch) =
        Some (Some (Finite 1))"
      by (simp add: answers_def two_kib_def)
    from p(2) mc kib cpu exact over under show ?thesis by simp
  qed
  done

text \<open>
  Claim C2: after any sequence of scrapes, a collection cycle against a snapshot \<open>S1\<close>
  followed by one against a snapshot \<open>S2\<close> returns normally and emits the 19 gauges; no
  emitted gauge holds a sample for the label values of a node of \<open>S1\<close> that no node of
  \<open>S2\<close> carries, nor for the name of a framework of \<open>S1\<close> that no framework of \<open>S2\<close>
  carries. The attribute metric, when it is registered, is not cleared: every row it held
  after the first cycle is still there after the second, and the row of every node of
  \<open>S1\<close> still reads 1.
\<close>

theorem stale_entities_disappear:
  fixes fetch1 fetch2 :: "'h \<Rightarrow> string \<Rightarrow> state \<Rightarrow> 'e option \<times> state" and h :: 'h
    and fs :: "('h \<Rightarrow> string \<Rightarrow> state \<Rightarrow> 'e option \<times> state) list"
  defines "S1 \<equiv> snd (fetch1 h ''/state'' \<lparr>Slaves = [], Frameworks = []\<rparr>)"
    and "S2 \<equiv> snd (fetch2 h ''/state'' \<lparr>Slaves = [], Frameworks = []\<rparr>)"
  shows "\<exists>mc mc1 ch1 mc2 ch2.
     scrapes fs (newMasterStateCollector aS gLV h labs) = Inr mc \<and>
     Collect fetch1 mc = Inr (mc1, ch1) \<and>
     Collect fetch2 mc1 = Inr (mc2, ch2) \<and>
     length (take 19 ch2) = 19 \<and>
     list_all is_GaugeVec (take 19 ch2) \<and>
     (\<forall>c\<in>set ch2. \<forall>opts ls m. c = GaugeVec opts ls m \<longrightarrow>
        (\<forall>a\<in>set (Slaves S1).
           [PID a, Hostname a] \<notin> (\<lambda>s. [PID s, Hostname s]) ` set (Slaves S2) \<longrightarrow>
           m [PID a, Hostname a] = None) \<and>
        (\<forall>f\<in>set (Frameworks S1).
           [framework.Name f] \<notin> (\<lambda>f. [framework.Name f]) ` set (Frameworks S2) \<longrightarrow>
           m [framework.Name f] = None)) \<and>
     (labs \<noteq> [] \<longrightarrow>
        (\<exists>m1 m2.
           drop 19 ch1 =
             [SettableCounterVec ''slave'' ''attributes'' ''Attributes assigned to slaves''
                (labels @ normaliseLabelList labs) m1] \<and>
           drop 19 ch2 =
             [SettableCounterVec ''slave'' ''attributes'' ''Attributes assigned to slaves''
                (labels @ normaliseLabelList labs) m2] \<and>
           dom m1 \<subseteq> dom m2 \<and>
           (\<forall>a\<in>set (Slaves S1).
              m2 (gLV (slaveAttributesExport aS (normaliseLabelList labs) a)
                    (labels @ normaliseLabelList labs)) = Some (Finite 1))))"
proof -
  let ?mc0 = "newMasterStateCollector aS gLV h labs"
  let ?key = "\<lambda>a. gLV (slaveAttributesExport aS (normaliseLabelList labs) a)
      (labels @ normaliseLabelList labs)"
  obtain mc where mc: "scrapes fs ?mc0 = Inr mc"
    using scrapes_newMasterStateCollector [of fs aS gLV h labs] by blast
  obtain e1 where f1: "fetch1 h ''/state'' \<lparr>Slaves = [], Frameworks = []\<rparr> = (e1, S1)"
    unfolding S1_def by (cases "fetch1 h ''/state'' \<lparr>Slaves = [], Frameworks = []\<rparr>") simp
  obtain e2 where f2: "fetch2 h ''/state'' \<lparr>Slaves = [], Frameworks = []\<rparr> = (e2, S2)"
    unfolding S2_def by (cases "fetch2 h ''/state'' \<lparr>Slaves = [], Frameworks = []\<rparr>") simp
  obtain mc1 ch1 where c1: "Collect fetch1 mc = Inr (mc1, ch1)"
    using Collect_reachable [OF mc, of fetch1] by blast
  note mc1 = cycle_fixed(4) [OF mc f1 c1]
  obtain mc2 ch2 where c2: "Collect fetch2 mc1 = Inr (mc2, ch2)"
    using Collect_reachable [OF mc1, of fetch2] by blast
  note k = cycle_gauges_keyed [OF mc1 f2 c2]
  have gauges: "\<forall>c\<in>set ch2. \<forall>opts ls m. c = GaugeVec opts ls m \<longrightarrow>
        (\<forall>a\<in>set (Slaves S1).
           [PID a, Hostname a] \<notin> (\<lambda>s. [PID s, Hostname s]) ` set (Slaves S2) \<longrightarrow>
           m [PID a, Hostname a] = None) \<and>
        (\<forall>f\<in>set (Frameworks S1).
           [framework.Name f] \<notin> (\<lambda>f. [framework.Name f]) ` set (Frameworks S2) \<longrightarrow>
           m [framework.Name f] = None)"
  proof (intro ballI allI impI conjI)
    fix c opts ls m and a :: slave
    assume "c \<in> set ch2" "c = GaugeVec opts ls m"
      and "[PID a, Hostname a] \<notin> (\<lambda>s. [PID s, Hostname s]) ` set (Slaves S2)"
    with k(3) show "m [PID a, Hostname a] = None"
      using keyed_absent(1) [of S2 c opts ls m a] by simp
  next
    fix c opts ls m and f :: framework
    assume "c \<in> set ch2" "c = GaugeVec opts ls m"
      and "[framework.Name f] \<notin> (\<lambda>f. [framework.Name f]) ` set (Frameworks S2)"
    with k(3) show "m [framework.Name f] = None"
      using keyed_absent(2) [of S2 c opts ls m f] by simp
  qed
  have counter: "\<exists>m1 m2.
           drop 19 ch1 =
             [SettableCounterVec ''slave'' ''attributes'' ''Attributes assigned to slaves''
                (labels @ normaliseLabelList labs) m1] \<and>
           drop 19 ch2 =
             [SettableCounterVec ''slave'' ''attributes'' ''Attributes assigned to slaves''
                (labels @ normaliseLabelList labs) m2] \<and>
           dom m1 \<subseteq> dom m2 \<and>
           (\<forall>a\<in>set (Slaves S1). m2 (?key a) = Some (Finite 1))"
    if labs: "labs \<noteq> []"
  proof -
    from cycle_counter [OF mc f1 c1 labs] obtain m0 where
      d1: "drop 19 ch1 =
          [SettableCounterVec ''slave'' ''attributes'' ''Attributes assigned to slaves''
             (labels @ normaliseLabelList labs)
             (fold (\<lambda>s m. m(?key s \<mapsto> Finite 1)) (Slaves S1) m0)]"
      by blast
    from cycle_counter [OF mc1 f2 c2 labs] obtain m1 where
      s1: "drop 19 (map fst (metrics mc1)) =
          [SettableCounterVec ''slave'' ''attributes'' ''Attributes assigned to slaves''
             (labels @ normaliseLabelList labs) m1]"
      and d2: "drop 19 ch2 =
          [SettableCounterVec ''slave'' ''attributes'' ''Attributes assigned to slaves''
             (labels @ normaliseLabelList labs)
             (fold (\<lambda>s m. m(?key s \<mapsto> Finite 1)) (Slaves S2) m1)]"
      by blast
    from cycle_emitted_is_state [OF mc c1] s1 d1
    have m1: "m1 = fold (\<lambda>s m. m(?key s \<mapsto> Finite 1)) (Slaves S1) m0" by simp
    let ?m2 = "fold (\<lambda>s m. m(?key s \<mapsto> Finite 1)) (Slaves S2) m1"
    have "dom m1 \<subseteq> dom ?m2"
      by (auto simp: fold_set_one dom_def)
    moreover have "\<forall>a\<in>set (Slaves S1). ?m2 (?key a) = Some (Finite 1)"
      by (simp add: m1 fold_set_one)
    ultimately have "drop 19 ch1 =
             [SettableCounterVec ''slave'' ''attributes'' ''Attributes assigned to slaves''
                (labels @ normaliseLabelList labs) m1] \<and>
           drop 19 ch2 =
             [SettableCounterVec ''slave'' ''attributes'' ''Attributes assigned to slaves''
                (labels @ normaliseLabelList labs) ?m2] \<and>
           dom m1 \<subseteq> dom ?m2 \<and>
           (\<forall>a\<in>set (Slaves S1). ?m2 (?key a) = Some (Finite 1))"
      using d1 d2 m1 by simp
    then show ?thesis by (intro exI)
  qed
  then have counter': "labs \<noteq> [] \<longrightarrow> (\<exists>m1 m2.
           drop 19 ch1 =
             [SettableCounterVec ''slave'' ''attributes'' ''Attributes assigned to slaves''
                (labels @ normaliseLabelList labs) m1] \<and>
           drop 19 ch2 =
             [SettableCounterVec ''slave'' ''attributes'' ''Attributes assigned to slaves''
                (labels @ normaliseLabelList labs) m2] \<and>
           dom m1 \<subseteq> dom m2 \<and>
           (\<forall>a\<in>set (Slaves S1). m2 (?key a) = Some (Finite 1)))"
    by (rule impI)
  from conjI [OF mc conjI [OF c1 conjI [OF c2 conjI [OF k(1) conjI [OF k(2)
    conjI [OF gauges counter']]]]]]
  show ?thesis by (intro exI)
qed

theorem stale_entities_disappear_witness:
  "\<exists>mc1 ch1 mc2 ch2 m2.
     Collect (answers scenario) (newMasterStateCollector quoted getLabelValuesFromMap () [''rack'']) =
       Inr (mc1, ch1) \<and>
     Collect (answers twin_frameworks) mc1 = Inr (mc2, ch2) \<and>
     length (take 19 ch2) = 19 \<and>
     list_all (\<lambda>c. children c [''s1'', ''h1''] = None) (take 19 ch2) \<and>
     drop 19 ch2 =
       [SettableCounterVec ''slave'' ''attributes'' ''Attributes assigned to slaves''
          [''slave'', ''hostname'', ''rack''] m2] \<and>
     m2 [''s1'', [], ''r1''] = Some (Finite 1)"
  using stale_entities_disappear
    [of "[]" quoted getLabelValuesFromMap "()" "[''rack'']" "answers scenario" "answers twin_frameworks"]
  apply (elim exE conjE)
  subgoal premises p for mc mc1 ch1 mc2 ch2
  proof -
    from p(1) have mc: "mc = newMasterStateCollector quoted getLabelValuesFromMap () [''rack'']" by simp
    have nl: "normaliseLabelList [''rack''] = [''rack'']"
      by (simp add: normaliseLabelList_def normaliseLabel_def validLabelChar_def)
    have sl: "Slaves scenario = [hd (Slaves scenario)]" by (simp add: scenario_def)
    have id: "PID (hd (Slaves scenario)) = ''s1''" "Hostname (hd (Slaves scenario)) = ''h1''"
      by (simp_all add: scenario_def)
    have gone: "children c [''s1'', ''h1''] = None" if c: "c \<in> set (take 19 ch2)" for c
    proof -
      from c p(5) have "is_GaugeVec c" by (simp add: list_all_iff)
      then obtain opts ls m where g: "c = GaugeVec opts ls m" by (cases c) simp_all
      from c have "c \<in> set ch2" by (rule in_set_takeD)
      with p(6) g have "\<forall>a\<in>set (Slaves scenario).
          [PID a, Hostname a] \<notin> (\<lambda>s. [PID s, Hostname s]) ` set (Slaves twin_frameworks) \<longrightarrow>
          m [PID a, Hostname a] = None"
        by (simp add: answers_def)
      moreover have "hd (Slaves scenario) \<in> set (Slaves scenario)" by (subst sl) simp
      moreover have "Slaves twin_frameworks = []" by (simp add: twin_frameworks_def)
      ultimately have "m [''s1'', ''h1''] = None" using id by auto
      with g show ?thesis by simp
    qed
    then have 1: "list_all (\<lambda>c. children c [''s1'', ''h1''] = None) (take 19 ch2)"
      by (simp add: list_all_iff)
    from p(7) obtain m1 :: samples and m2 where
      d2: "drop 19 ch2 =
         [SettableCounterVec ''slave'' ''attributes'' ''Attributes assigned to slaves''
            (labels @ normaliseLabelList [''rack'']) m2]"
      and rows: "\<forall>a\<in>set (Slaves scenario).
         m2 (getLabelValuesFromMap (slaveAttributesExport quoted (normaliseLabelList [''rack'']) a)
               (labels @ normaliseLabelList [''rack''])) = Some (Finite 1)"
      by (auto simp: answers_def)
    from rows have "m2 (getLabelValuesFromMap (slaveAttributesExport quoted (normaliseLabelList [''rack''])
        (hd (Slaves scenario))) (labels @ normaliseLabelList [''rack''])) = Some (Finite 1)"
      by (subst (asm) sl) simp
    then have 2: "m2 [''s1'', [], ''r1''] = Some (Finite 1)"
      by (simp add: nl labels_def scenario_key)
    from d2 have 3: "drop 19 ch2 =
       [SettableCounterVec ''slave'' ''attributes'' ''Attributes assigned to slaves''
          [''slave'', ''hostname'', ''rack''] m2]"
      by (simp add: nl labels_def)
    from p(2) p(3) p(4) 1 2 3 mc show ?thesis by auto
  qed
  done

text \<open>
  Claim C3, as the code has it. The claim counts one sample per entity of the snapshot's
  list. A gauge holds one child per tuple of label values, so two frameworks of one name
  share a sample: on a snapshot with two frameworks named \<^verbatim>\<open>f\<close> the cycle leaves the
  \<^verbatim>\<open>active\<close> gauge with the single sample \<^verbatim>\<open>f\<close>.
\<close>

theorem one_sample_per_label_tuple_counterexample:
  "Collect (answers twin_frameworks) (newMasterStateCollector quoted getLabelValuesFromMap () []) =
     Inr (projr (Collect (answers twin_frameworks)
                   (newMasterStateCollector quoted getLabelValuesFromMap () []))) \<and>
   map_option dom
     (gauge_samples ''framework'' ''active''
        (snd (projr (Collect (answers twin_frameworks)
                       (newMasterStateCollector quoted getLabelValuesFromMap () []))))) =
     Some {[''f'']} \<and>
   length (Frameworks twin_frameworks) = 2"
proof -
  let ?mc0 = "newMasterStateCollector quoted getLabelValuesFromMap () []"
  have reach: "scrapes [] ?mc0 = Inr ?mc0" by simp
  obtain mc' ch where c: "Collect (answers twin_frameworks) ?mc0 = Inr (mc', ch)"
    using Collect_reachable [OF reach, of "answers twin_frameworks"] by blast
  have fetch: "answers twin_frameworks () ''/state'' \<lparr>Slaves = [], Frameworks = []\<rparr> =
      (None, twin_frameworks)"
    by (simp add: answers_def)
  have fixed: "list_all2 (\<lambda>e c'. snd e twin_frameworks (fst e) = Inr c') fixed_metrics (take 19 ch)"
    by (rule cycle_fixed(1) [OF reach fetch c])
  from fixed_gauges_more [OF fixed, of "drop 19 ch", unfolded append_take_drop_id]
  have "gauge_samples ''framework'' ''active'' ch =
      Some (framework_samples (\<lambda>f. if Active f then Finite 1 else Finite 0) twin_frameworks)"
    by (rule conjunct2)
  then have "map_option dom (gauge_samples ''framework'' ''active'' ch) =
      Some ((\<lambda>f. [framework.Name f]) ` set (Frameworks twin_frameworks))"
    by (simp add: dom_samples)
  then have "map_option dom (gauge_samples ''framework'' ''active'' ch) = Some {[''f'']}"
    by (simp add: twin_frameworks_def)
  moreover have "length (Frameworks twin_frameworks) = 2"
    by (simp add: twin_frameworks_def)
  ultimately show ?thesis using c by simp
qed

text \<open>
  Claim C3, amended: after any sequence of scrapes, a collection cycle on a snapshot
  returns normally and emits the 19 fixed gauges, each once (and no other gauge); the
  samples of a node gauge are keyed by exactly the \<^verbatim>\<open>(pid, hostname)\<close> tuples of the
  snapshot's nodes and those of a framework gauge by exactly the names of its frameworks:
  one sample per distinct tuple (as many samples as the list has distinct tuples, so one
  per entity when the tuples are pairwise distinct), and none when the list is empty.
\<close>

theorem one_sample_per_label_tuple:
  fixes fetch :: "'h \<Rightarrow> string \<Rightarrow> state \<Rightarrow> 'e option \<times> state" and h :: 'h
    and fs :: "('h \<Rightarrow> string \<Rightarrow> state \<Rightarrow> 'e option \<times> state) list"
  defines "st \<equiv> snd (fetch h ''/state'' \<lparr>Slaves = [], Frameworks = []\<rparr>)"
  shows "\<exists>mc mc' ch.
     scrapes fs (newMasterStateCollector aS gLV h labs) = Inr mc \<and>
     Collect fetch mc = Inr (mc', ch) \<and>
     length (take 19 ch) = 19 \<and>
     list_all is_GaugeVec (take 19 ch) \<and>
     map (\<lambda>c. with_children c Map.empty) (take 19 ch) = map fst fixed_metrics \<and>
     list_all (\<lambda>c. \<not> is_GaugeVec c) (drop 19 ch) \<and>
     (\<forall>c\<in>set ch. \<forall>opts ls m. c = GaugeVec opts ls m \<longrightarrow>
        (ls = [''slave'', ''hostname''] \<and>
           dom m = (\<lambda>s. [PID s, Hostname s]) ` set (Slaves st) \<and>
           card (dom m) = length (remdups (map (\<lambda>s. [PID s, Hostname s]) (Slaves st)))) \<or>
        (ls = [''framework''] \<and>
           dom m = (\<lambda>f. [framework.Name f]) ` set (Frameworks st) \<and>
           card (dom m) = length (remdups (map (\<lambda>f. [framework.Name f]) (Frameworks st)))))"
proof -
  obtain mc where mc: "scrapes fs (newMasterStateCollector aS gLV h labs) = Inr mc"
    using scrapes_newMasterStateCollector [of fs aS gLV h labs] by blast
  obtain err where fetch: "fetch h ''/state'' \<lparr>Slaves = [], Frameworks = []\<rparr> = (err, st)"
    unfolding st_def by (cases "fetch h ''/state'' \<lparr>Slaves = [], Frameworks = []\<rparr>") simp
  obtain mc' ch where c: "Collect fetch mc = Inr (mc', ch)"
    using Collect_reachable [OF mc, of fetch] by blast
  note fixed = cycle_fixed(1) [OF mc fetch c]
  note rest = cycle_fixed(2) [OF mc fetch c]
  note k = cycle_gauges_keyed [OF mc fetch c]
  have desc: "map (\<lambda>c. with_children c Map.empty) (take 19 ch) = map fst fixed_metrics"
    by (rule fixed_gauges_desc [OF fixed])
  have keyed: "\<forall>c\<in>set ch. \<forall>opts ls m. c = GaugeVec opts ls m \<longrightarrow>
        (ls = [''slave'', ''hostname''] \<and>
           dom m = (\<lambda>s. [PID s, Hostname s]) ` set (Slaves st) \<and>
           card (dom m) = length (remdups (map (\<lambda>s. [PID s, Hostname s]) (Slaves st)))) \<or>
        (ls = [''framework''] \<and>
           dom m = (\<lambda>f. [framework.Name f]) ` set (Frameworks st) \<and>
           card (dom m) = length (remdups (map (\<lambda>f. [framework.Name f]) (Frameworks st))))"
  proof (intro ballI allI impI)
    fix c opts ls m assume c: "c \<in> set ch" and g: "c = GaugeVec opts ls m"
    with k(3) have "keyed st c" by simp
    then show "(ls = [''slave'', ''hostname''] \<and>
           dom m = (\<lambda>s. [PID s, Hostname s]) ` set (Slaves st) \<and>
           card (dom m) = length (remdups (map (\<lambda>s. [PID s, Hostname s]) (Slaves st)))) \<or>
        (ls = [''framework''] \<and>
           dom m = (\<lambda>f. [framework.Name f]) ` set (Frameworks st) \<and>
           card (dom m) = length (remdups (map (\<lambda>f. [framework.Name f]) (Frameworks st))))"
      using g by (rule keyed_card)
  qed
  from conjI [OF mc conjI [OF c conjI [OF k(1) conjI [OF k(2) conjI [OF desc
    conjI [OF rest keyed]]]]]]
  show ?thesis by (intro exI)
qed

theorem one_sample_per_label_tuple_witness:
  "\<exists>mc' ch.
     Collect (answers one_each) (newMasterStateCollector quoted getLabelValuesFromMap () []) =
       Inr (mc', ch) \<and>
     length (take 19 ch) = 19 \<and>
     list_all (\<lambda>c. card (dom (children c)) = 1) (take 19 ch)"
  using one_sample_per_label_tuple [of "[]" quoted getLabelValuesFromMap "()" "[]" "answers one_each"]
  apply (elim exE conjE)
  subgoal premises p for mc mc' ch
  proof -
    from p(1) have mc: "mc = newMasterStateCollector quoted getLabelValuesFromMap () []" by simp
    have "card (dom (children c)) = 1" if c: "c \<in> set (take 19 ch)" for c
    proof -
      from c p(4) have "is_GaugeVec c" by (simp add: list_all_iff)
      then obtain opts ls m where g: "c = GaugeVec opts ls m" by (cases c) simp_all
      from c have "c \<in> set ch" by (rule in_set_takeD)
      with p(7) g have "card (dom m) = 1"
        by (auto simp: answers_def one_each_def)
      with g show ?thesis by simp
    qed
    then have "list_all (\<lambda>c. card (dom (children c)) = 1) (take 19 ch)"
      by (simp add: list_all_iff)
    with p(2) p(3) mc show ?thesis by auto
  qed
  done



text \<open>
  Claim C6, as the code has it. The claim counts one record per node. The attribute metric
  holds one row per tuple of label values, and the closure fills \<^verbatim>\<open>slave\<close> and the
  allow-listed names only: two nodes of one pid (and one rack) share a record. On a
  snapshot with two such nodes the registered closure leaves a single row.
\<close>

theorem attributes_closure_records_counterexample:
  "snd (last (metrics (newMasterStateCollector quoted getLabelValuesFromMap () [''rack''])))
     twin_nodes
     (fst (last (metrics (newMasterStateCollector quoted getLabelValuesFromMap () [''rack''])))) =
   Inr (SettableCounterVec ''slave'' ''attributes'' ''Attributes assigned to slaves''
          [''slave'', ''hostname'', ''rack''] (Map.empty([''s1'', [], ''r1''] \<mapsto> Finite 1))) \<and>
   length (Slaves twin_nodes) = 2"
proof -
  have nl: "normaliseLabelList [''rack''] = [''rack'']"
    by (simp add: normaliseLabelList_def normaliseLabel_def validLabelChar_def)
  have rack: "attribute_value quoted s ''rack'' = ''r1''"
    if "Attributes s = [(''rack'', [CHR 0x22, CHR ''r'', CHR ''1'', CHR 0x22])]" for s
    by (simp add: attribute_value_def attribute_strings_def map_filter_def that quoted_def
        normaliseLabel_def validLabelChar_def)
  have key: "getLabelValuesFromMap (slaveAttributesExport quoted [''rack''] s)
      [''slave'', ''hostname'', ''rack''] = [''s1'', [], ''r1'']"
    if "s \<in> set (Slaves twin_nodes)" for s
    using that record_of_node [of quoted "[''rack'']" s]
    by (auto simp: twin_nodes_def labels_def rack)
  have "fold (\<lambda>s m. m(getLabelValuesFromMap (slaveAttributesExport quoted [''rack''] s)
            [''slave'', ''hostname'', ''rack''] \<mapsto> Finite 1)) (Slaves twin_nodes) Map.empty =
      (Map.empty([''s1'', [], ''r1''] \<mapsto> Finite 1))"
  proof (rule ext)
    fix k
    show "fold (\<lambda>s m. m(getLabelValuesFromMap (slaveAttributesExport quoted [''rack''] s)
            [''slave'', ''hostname'', ''rack''] \<mapsto> Finite 1)) (Slaves twin_nodes) Map.empty k =
      (Map.empty([''s1'', [], ''r1''] \<mapsto> Finite 1)) k"
      unfolding fold_set_one using key by (auto simp: twin_nodes_def)
  qed
  then show ?thesis
    by (simp add: metrics_newMasterStateCollector nl labels_def attributes_closure_def
        attributes_loop_counter) (simp add: twin_nodes_def)
qed

text \<open>
  Claim C6, amended: on a snapshot, the closure of the attribute metric sets the record of
  each node to the constant 1 and leaves every other row as it was. The record of a node
  is keyed by its label values, so the closure leaves one record per distinct tuple of
  label values among the nodes: one per node when the tuples are pairwise distinct, as
  they are when the pids are and \<^verbatim>\<open>slave\<close> is not an allow-listed name. In a record every
  label of the metric has a value: an allow-listed name has the string of the node's
  attribute whose key normalizes to it (the last one read, if there are several), and the
  empty string when the node has no such attribute or its value is not a string; of the
  two other labels, unless they are allow-listed names themselves, \<^verbatim>\<open>slave\<close> has the
  node's pid and \<^verbatim>\<open>hostname\<close>, which the closure does not fill, the empty string. The
  closure registered for a non-empty allow-list is this one, on the normalized names of
  the list.
\<close>

theorem attributes_closure_records:
  fixes aS :: "string \<Rightarrow> string option" and nls :: "string list" and st :: state
  defines "row \<equiv> \<lambda>s.
      [if ''slave'' \<in> set nls then attribute_value aS s ''slave'' else PID s,
       if ''hostname'' \<in> set nls then attribute_value aS s ''hostname'' else []] @
      map (attribute_value aS s) nls"
  shows
   "(\<exists>m'. attributes_closure aS getLabelValuesFromMap nls (labels @ nls) st
             (SettableCounterVec a b hh ls m) =
            Inr (SettableCounterVec a b hh ls m') \<and>
          dom m' = dom m \<union> row ` set (Slaves st) \<and>
          (\<forall>s\<in>set (Slaves st). m' (row s) = Some (Finite 1)) \<and>
          (\<forall>k. k \<notin> row ` set (Slaves st) \<longrightarrow> m' k = m k) \<and>
          (m = Map.empty \<longrightarrow> card (dom m') = length (remdups (map row (Slaves st)))) \<and>
          (m = Map.empty \<and> distinct (map PID (Slaves st)) \<and> ''slave'' \<notin> set nls \<longrightarrow>
             card (dom m') = length (Slaves st))) \<and>
    (\<forall>s. length (row s) = length (labels @ nls)) \<and>
    (\<forall>s l. (\<forall>(k, v)\<in>set (Attributes s). normaliseLabel k = l \<longrightarrow> aS v = None) \<longrightarrow>
       attribute_value aS s l = []) \<and>
    (\<forall>s l pre k v post x.
       Attributes s = pre @ (k, v) # post \<and> normaliseLabel k = l \<and> aS v = Some x \<and>
       (\<forall>(k', v')\<in>set post. normaliseLabel k' = l \<longrightarrow> aS v' = None) \<longrightarrow>
       attribute_value aS s l = x) \<and>
    (labs \<noteq> [] \<longrightarrow>
       last (metrics (newMasterStateCollector aS getLabelValuesFromMap h labs)) =
         (SettableCounterVec ''slave'' ''attributes'' ''Attributes assigned to slaves''
            (labels @ normaliseLabelList labs) Map.empty,
          attributes_closure aS getLabelValuesFromMap (normaliseLabelList labs)
            (labels @ normaliseLabelList labs)))"
proof -
  let ?key = "\<lambda>s. getLabelValuesFromMap (slaveAttributesExport aS nls s) (labels @ nls)"
  let ?m' = "fold (\<lambda>s m. m(row s \<mapsto> Finite 1)) (Slaves st) m"
  have key: "?key = row"
    unfolding row_def by (rule ext) (rule record_of_node)
  have run: "attributes_closure aS getLabelValuesFromMap nls (labels @ nls) st
      (SettableCounterVec a b hh ls m) = Inr (SettableCounterVec a b hh ls ?m')"
    unfolding key [symmetric] by (simp add: attributes_closure_def attributes_loop_counter)
  have dom: "dom ?m' = dom m \<union> row ` set (Slaves st)"
    by (rule dom_fold_set_one)
  have ones: "\<forall>s\<in>set (Slaves st). ?m' (row s) = Some (Finite 1)"
    by (simp add: fold_set_one)
  have others: "\<forall>k. k \<notin> row ` set (Slaves st) \<longrightarrow> ?m' k = m k"
    by (simp add: fold_set_one)
  have count: "m = Map.empty \<longrightarrow> card (dom ?m') = length (remdups (map row (Slaves st)))"
  proof
    assume "m = Map.empty"
    with dom have "dom ?m' = row ` set (Slaves st)" by simp
    then show "card (dom ?m') = length (remdups (map row (Slaves st)))"
      by (simp only: card_image_remdups)
  qed
  have hd: "hd (row s) = PID s" if "''slave'' \<notin> set nls" for s
    using that by (simp add: row_def)
  have each: "m = Map.empty \<and> distinct (map PID (Slaves st)) \<and> ''slave'' \<notin> set nls \<longrightarrow>
      card (dom ?m') = length (Slaves st)"
  proof (intro impI, elim conjE)
    assume m: "m = Map.empty" and d: "distinct (map PID (Slaves st))"
      and s: "''slave'' \<notin> set nls"
    from distinct_records [OF d, of row] hd [OF s]
    have "distinct (map row (Slaves st))" by simp
    then have "length (remdups (map row (Slaves st))) = length (Slaves st)"
      by (simp add: distinct_remdups_id)
    with count m show "card (dom ?m') = length (Slaves st)" by simp
  qed
  have closure: "\<exists>m'. attributes_closure aS getLabelValuesFromMap nls (labels @ nls) st
             (SettableCounterVec a b hh ls m) =
            Inr (SettableCounterVec a b hh ls m') \<and>
          dom m' = dom m \<union> row ` set (Slaves st) \<and>
          (\<forall>s\<in>set (Slaves st). m' (row s) = Some (Finite 1)) \<and>
          (\<forall>k. k \<notin> row ` set (Slaves st) \<longrightarrow> m' k = m k) \<and>
          (m = Map.empty \<longrightarrow> card (dom m') = length (remdups (map row (Slaves st)))) \<and>
          (m = Map.empty \<and> distinct (map PID (Slaves st)) \<and> ''slave'' \<notin> set nls \<longrightarrow>
             card (dom m') = length (Slaves st))"
    using conjI [OF run conjI [OF dom conjI [OF ones conjI [OF others conjI [OF count each]]]]]
    by (intro exI)
  have len: "\<forall>s. length (row s) = length (labels @ nls)"
    by (simp add: row_def labels_def)
  have default: "\<forall>s l. (\<forall>(k, v)\<in>set (Attributes s). normaliseLabel k = l \<longrightarrow> aS v = None) \<longrightarrow>
       attribute_value aS s l = []"
    using attribute_value_default [of _ _ aS] by blast
  have string: "\<forall>s l pre k v post x.
       Attributes s = pre @ (k, v) # post \<and> normaliseLabel k = l \<and> aS v = Some x \<and>
       (\<forall>(k', v')\<in>set post. normaliseLabel k' = l \<longrightarrow> aS v' = None) \<longrightarrow>
       attribute_value aS s l = x"
    using attribute_value_last [of _ _ _ _ _ _ aS] by blast
  have reg: "labs \<noteq> [] \<longrightarrow>
       last (metrics (newMasterStateCollector aS getLabelValuesFromMap h labs)) =
         (SettableCounterVec ''slave'' ''attributes'' ''Attributes assigned to slaves''
            (labels @ normaliseLabelList labs) Map.empty,
          attributes_closure aS getLabelValuesFromMap (normaliseLabelList labs)
            (labels @ normaliseLabelList labs))"
    by (simp add: metrics_newMasterStateCollector)
  from closure len default string reg show ?thesis by (intro conjI)
qed

theorem attributes_closure_records_witness:
  "(\<exists>m'. attributes_closure quoted getLabelValuesFromMap [''rack'', ''zone'']
            [''slave'', ''hostname'', ''rack'', ''zone''] scenario
            (SettableCounterVec ''slave'' ''attributes'' ''Attributes assigned to slaves''
               [''slave'', ''hostname'', ''rack'', ''zone''] Map.empty) =
          Inr (SettableCounterVec ''slave'' ''attributes'' ''Attributes assigned to slaves''
               [''slave'', ''hostname'', ''rack'', ''zone''] m') \<and>
        dom m' = {[''s1'', [], ''r1'', []]} \<and>
        m' [''s1'', [], ''r1'', []] = Some (Finite 1) \<and>
        card (dom m') = length (Slaves scenario)) \<and>
   fst (last (metrics (newMasterStateCollector quoted getLabelValuesFromMap ()
                         [''rack'', ''zone'']))) =
     SettableCounterVec ''slave'' ''attributes'' ''Attributes assigned to slaves''
       [''slave'', ''hostname'', ''rack'', ''zone''] Map.empty"
proof -
  let ?n = "hd (Slaves scenario)"
  let ?nls = "[''rack'', ''zone'']"
  let ?export = "[''slave'', ''hostname'', ''rack'', ''zone'']"
  note t = attributes_closure_records [of quoted ?nls scenario
      "''slave''" "''attributes''" "''Attributes assigned to slaves''" ?export Map.empty
      "[''rack'', ''zone'']" "()"]
  have nl: "normaliseLabel ''rack'' = ''rack''" "normaliseLabel ''zone'' = ''zone''"
    by (simp_all add: normaliseLabel_def validLabelChar_def)
  have attrs: "Attributes ?n = [] @ (''rack'', [CHR 0x22, CHR ''r'', CHR ''1'', CHR 0x22]) # []"
    by (simp add: scenario_def)
  have q: "quoted [CHR 0x22, CHR ''r'', CHR ''1'', CHR 0x22] = Some ''r1''"
    by (simp add: quoted_def)
  note closure = t [THEN conjunct1]
  note default = t [THEN conjunct2, THEN conjunct2, THEN conjunct1]
  note string = t [THEN conjunct2, THEN conjunct2, THEN conjunct2, THEN conjunct1]
  note reg = t [THEN conjunct2, THEN conjunct2, THEN conjunct2, THEN conjunct2]
  from string [rule_format, of ?n "[]" "''rack''" "[CHR 0x22, CHR ''r'', CHR ''1'', CHR 0x22]" "[]"
      "''rack''" "''r1''"]
  have rack: "attribute_value quoted ?n ''rack'' = ''r1''"
    using attrs nl q by simp
  from default [rule_format, of ?n "''zone''"]
  have zone: "attribute_value quoted ?n ''zone'' = []"
    using attrs nl by simp
  have sl: "Slaves scenario = [?n]" by (simp add: scenario_def)
  have pid: "PID ?n = ''s1''" by (simp add: scenario_def)
  from reg have registered:
    "fst (last (metrics (newMasterStateCollector quoted getLabelValuesFromMap ()
                           [''rack'', ''zone'']))) =
     SettableCounterVec ''slave'' ''attributes'' ''Attributes assigned to slaves''
       [''slave'', ''hostname'', ''rack'', ''zone''] Map.empty"
    by (simp add: normaliseLabelList_def nl labels_def)
  from closure have "\<exists>m'. attributes_closure quoted getLabelValuesFromMap [''rack'', ''zone'']
            [''slave'', ''hostname'', ''rack'', ''zone''] scenario
            (SettableCounterVec ''slave'' ''attributes'' ''Attributes assigned to slaves''
               [''slave'', ''hostname'', ''rack'', ''zone''] Map.empty) =
          Inr (SettableCounterVec ''slave'' ''attributes'' ''Attributes assigned to slaves''
               [''slave'', ''hostname'', ''rack'', ''zone''] m') \<and>
        dom m' = {[''s1'', [], ''r1'', []]} \<and>
        m' [''s1'', [], ''r1'', []] = Some (Finite 1) \<and>
        card (dom m') = length (Slaves scenario)"
    apply (elim exE conjE)
    subgoal premises p for m'
    proof -
      have img: "(\<lambda>s. [if ''slave'' \<in> set ?nls then attribute_value quoted s ''slave'' else PID s,
           if ''hostname'' \<in> set ?nls then attribute_value quoted s ''hostname'' else []] @
          map (attribute_value quoted s) ?nls) ` set (Slaves scenario) = {[''s1'', [], ''r1'', []]}"
        by (subst sl) (simp add: rack zone pid)
      from p(2) have d: "dom m' = {[''s1'', [], ''r1'', []]}"
        unfolding img by simp
      from p(3) have one: "m' [''s1'', [], ''r1'', []] = Some (Finite 1)"
        by (subst (asm) sl) (simp add: rack zone pid)
      have "distinct (map PID (Slaves scenario))" by (subst sl) simp
      with p(6) have each: "card (dom m') = length (Slaves scenario)" by simp
      from p(1) d one each show ?thesis by (simp add: labels_def)
    qed
    done
  with registered show ?thesis by (rule conjI [rotated])
qed

text \<open>
  Claim C9: with an empty allow-list the registry is exactly the 19 fixed metrics, all of
  them gauges; with a non-empty allow-list it is these followed by one more metric, the
  attribute metric labelled \<^verbatim>\<open>slave\<close>, \<^verbatim>\<open>hostname\<close> and the normalized names of the list.
  So the registry holds a metric that is not a gauge if and only if the allow-list is not
  empty.
\<close>

theorem dynamic_metric_iff_allow_list:
  "metrics (newMasterStateCollector aS gLV h []) = fixed_metrics \<and>
   length fixed_metrics = 19 \<and>
   list_all (\<lambda>e. is_GaugeVec (fst e)) fixed_metrics \<and>
   (labs \<noteq> [] \<longrightarrow>
      metrics (newMasterStateCollector aS gLV h labs) =
        metrics (newMasterStateCollector aS gLV h []) @
        [(SettableCounterVec ''slave'' ''attributes'' ''Attributes assigned to slaves''
            ([''slave'', ''hostname''] @ map normaliseLabel labs) Map.empty,
          attributes_closure aS gLV (map normaliseLabel labs)
            ([''slave'', ''hostname''] @ map normaliseLabel labs))]) \<and>
   length (metrics (newMasterStateCollector aS gLV h labs)) = (if labs = [] then 19 else 20) \<and>
   ((\<exists>e\<in>set (metrics (newMasterStateCollector aS gLV h labs)). \<not> is_GaugeVec (fst e)) \<longleftrightarrow>
      labs \<noteq> [])"
proof -
  have g: "list_all (\<lambda>e. is_GaugeVec (fst e)) fixed_metrics"
    by (simp add: fixed_metrics_def)
  then have "\<forall>e\<in>set fixed_metrics. is_GaugeVec (fst e)" by (simp add: list_all_iff)
  then have iff: "(\<exists>e\<in>set (metrics (newMasterStateCollector aS gLV h labs)). \<not> is_GaugeVec (fst e))
      \<longleftrightarrow> labs \<noteq> []"
    by (auto simp: metrics_newMasterStateCollector)
  show ?thesis
    using g iff
    by (simp add: metrics_newMasterStateCollector length_fixed_metrics normaliseLabelList_def
        labels_def)
qed

theorem dynamic_metric_iff_allow_list_witness:
  "length (metrics (newMasterStateCollector quoted getLabelValuesFromMap () [''rack''])) = 20 \<and>
   length (metrics (newMasterStateCollector quoted getLabelValuesFromMap () [])) = 19 \<and>
   fst (last (metrics (newMasterStateCollector quoted getLabelValuesFromMap () [''rack'']))) =
     SettableCounterVec ''slave'' ''attributes'' ''Attributes assigned to slaves''
       [''slave'', ''hostname'', ''rack''] Map.empty"
proof -
  have nl: "normaliseLabel ''rack'' = ''rack''"
    by (simp add: normaliseLabel_def validLabelChar_def)
  from dynamic_metric_iff_allow_list [of quoted getLabelValuesFromMap "()" "[''rack'']"]
  have 1: "length (metrics (newMasterStateCollector quoted getLabelValuesFromMap () [''rack''])) = 20"
    and 3: "fst (last (metrics (newMasterStateCollector quoted getLabelValuesFromMap () [''rack'']))) =
     SettableCounterVec ''slave'' ''attributes'' ''Attributes assigned to slaves''
       [''slave'', ''hostname'', ''rack''] Map.empty"
    by (simp_all add: nl)
  from dynamic_metric_iff_allow_list [of quoted getLabelValuesFromMap "()" "[]"]
  have 2: "length (metrics (newMasterStateCollector quoted getLabelValuesFromMap () [])) = 19"
    by simp
  from 1 2 3 show ?thesis by simp
qed

end
